theory Spec2Isabelle
  imports Main
begin

section \<open>Go values shared by the provider packages\<close>

text \<open>
  Go's \<open>int\<close>, \<open>int64\<close> and \<open>time.Duration\<close> values are modelled as \<open>int\<close>: the code
  only compares, copies and prints them, it performs no arithmetic that could wrap.
  A Go map that may be \<open>nil\<close> is an optional partial function (\<open>None\<close> is the nil map), so
  that equality on the model is \<open>reflect.DeepEqual\<close> on the Go value (a nil map and an
  empty map are different).
\<close>

type_synonym Labels = "(string \<rightharpoonup> string) option"

subsection \<open>strconv.Itoa and strconv.FormatInt (base 10)\<close>

definition digit_char :: "nat \<Rightarrow> char" where
  "digit_char d = ''0123456789'' ! d"

fun digits :: "nat \<Rightarrow> string" where
  "digits n = (if n < 10 then [digit_char n] else digits (n div 10) @ [digit_char (n mod 10)])"

declare digits.simps [simp del]

definition Itoa :: "int \<Rightarrow> string" where
  "Itoa i = (if i < 0 then CHR ''-'' # digits (nat (- i)) else digits (nat i))"

definition FormatInt :: "int \<Rightarrow> string" where
  "FormatInt i = Itoa i"

section \<open>pkg/hcloud/labels.go\<close>

definition GeneratedDateTime :: string where
  "GeneratedDateTime = ''crossplane.io/generated-at''"

definition ProviderLabel :: string where
  "ProviderLabel = ''crossplane.io/provider''"

definition Provider :: string where
  "Provider = ''provider-hetzner''"

text \<open>
  \<open>ApplyDefaultLabels(input ...map[string]string)\<close>. The first argument is the reading of
  \<open>time.Now().Unix()\<close>. The map literal holds the two system entries; the loops then store
  every entry of every input map into it, in argument order (ranging over a nil map runs no
  iteration). Within one map the keys are distinct, so the iteration order does not matter
  and the inner loop is \<open>labels ++ i\<close>.
\<close>

definition default_labels :: "int \<Rightarrow> (string \<rightharpoonup> string)" where
  "default_labels unix = [ProviderLabel \<mapsto> Provider, GeneratedDateTime \<mapsto> FormatInt unix]"

definition ApplyDefaultLabels :: "int \<Rightarrow> Labels list \<Rightarrow> (string \<rightharpoonup> string)" where
  "ApplyDefaultLabels unix input =
     foldl (\<lambda>labels i. case i of None \<Rightarrow> labels | Some m \<Rightarrow> labels ++ m)
       (default_labels unix) input"

section \<open>apis/cloud/v1alpha1/firewall\_types.go: converters\<close>

record FirewallPort =
  All :: bool
  Start :: "int option"
  End :: "int option"

text \<open>
  \<open>func (f *FirewallPort) String() (s string)\<close>: the receiver may be nil. The named
  result \<open>s\<close> starts as the empty string and is returned as it is when neither branch
  assigns it.
\<close>

definition FirewallPort_String :: "FirewallPort option \<Rightarrow> string" where
  "FirewallPort_String f =
     (case f of
        None \<Rightarrow> ''any''
      | Some p \<Rightarrow>
          if All p then ''any''
          else (case Start p of
                  None \<Rightarrow> ''''
                | Some start \<Rightarrow>
                    (case End p of
                       None \<Rightarrow> Itoa start
                     | Some end \<Rightarrow>
                         if start \<noteq> end then Itoa start @ ''-'' @ Itoa end
                         else Itoa start)))"

text \<open>Reading a decimal rendering back, to state that \<open>digits\<close> is the decimal one.\<close>

definition digit_value :: "char \<Rightarrow> nat" where
  "digit_value c = of_char c - 48"

definition decimal_value :: "string \<Rightarrow> nat" where
  "decimal_value s = foldl (\<lambda>a c. 10 * a + digit_value c) 0 s"

section \<open>Errors, pointers and deep equality\<close>

text \<open>
  A Go \<open>error\<close> value is modelled by its message. A run-time panic of the Go code (the only
  one the modelled code can raise is a nil-pointer dereference) is a separate outcome: it
  unwinds through every caller and is never wrapped.
\<close>

datatype error = Err string | NilPointerDereference

text \<open>\<open>errors.Wrap(err, msg)\<close>: the message, a colon and the cause's message.\<close>

fun Wrap :: "error \<Rightarrow> string \<Rightarrow> error" where
  "Wrap (Err cause) msg = Err (msg @ '': '' @ cause)"
| "Wrap NilPointerDereference msg = NilPointerDereference"

text \<open>
  A non-nil pointer is the address it holds together with the value stored there; a field
  of pointer type is an optional pointer (\<open>None\<close> is nil). Go's \<open>==\<close> and \<open>!=\<close> on two
  pointers compare the addresses, not the values pointed to.
\<close>

datatype 'a ptr = Ptr (addr: nat) (val: 'a)

definition ptr_eq :: "'a ptr option \<Rightarrow> 'a ptr option \<Rightarrow> bool" where
  "ptr_eq p q = (map_option addr p = map_option addr q)"

text \<open>
  \<open>reflect.DeepEqual\<close>. The fields it is applied to are modelled by types on which HOL
  equality is deep equality: maps and slices are optional (nil differs from empty), and
  the pointers inside the compared structures are optional values without an address
  (deep equality looks through a pointer).
\<close>

definition DeepEqual :: "'a \<Rightarrow> 'a \<Rightarrow> bool" where
  "DeepEqual a b = (a = b)"

section \<open>The provider SDK as seen by the controllers\<close>

datatype ActionStatus = ActionStatusRunning | ActionStatusSuccess | ActionStatusError

record Action =
  act_ID :: int
  act_Status :: ActionStatus
  act_ErrorCode :: string
  act_ErrorMessage :: string

text \<open>The fields of \<open>hcloud.Volume\<close> the controllers read: the ID and the attached server.\<close>

record hc_Volume =
  hv_ID :: int
  hv_Server :: "int option"

text \<open>
  The requests the controllers send, with the arguments that identify them. The last one
  is \<open>kube.Status().Update\<close>, the write of the managed resource's status to the store.
\<close>

datatype call =
    Action_GetByID int
  | Volume_GetByID int
  | Volume_Update int "string \<rightharpoonup> string"
  | Volume_Detach int
  | Volume_AttachWithOpts int int bool
  | Volume_Resize int int
  | Volume_Delete int
  | Kube_Status_Update

text \<open>
  What a request returns: the error (if any) and the results of the types the SDK's
  functions return. A call site reads the components of its function's Go result type.
\<close>

record response =
  r_err :: "string option"
  r_action :: "Action option"
  r_actions :: "Action option list"
  r_volume :: "hc_Volume option"

text \<open>
  The state a controller operation runs in: the managed resource it was handed (mutated in
  place by the Go code), the clock reading in nanoseconds, and the requests sent so far
  with their responses.
\<close>

record 'cr state =
  cr :: 'cr
  now :: int
  log :: "(call \<times> response) list"

text \<open>
  The environment answers every request, as a function of the clock and of the history of
  requests, so that the same request may be answered differently each time. It also says
  how long each request takes and by how much each sleep overruns (both at least zero).
\<close>

record env =
  respond :: "int \<Rightarrow> (call \<times> response) list \<Rightarrow> call \<Rightarrow> response"
  latency :: "int \<Rightarrow> (call \<times> response) list \<Rightarrow> call \<Rightarrow> nat"
  oversleep :: "int \<Rightarrow> (call \<times> response) list \<Rightarrow> nat"

type_synonym ('cr, 'a) prog = "'cr state \<Rightarrow> (error + 'a) \<times> 'cr state"

definition return :: "'a \<Rightarrow> ('cr, 'a) prog" where
  "return x s = (Inr x, s)"

definition throw :: "error \<Rightarrow> ('cr, 'a) prog" where
  "throw e s = (Inl e, s)"

definition bind :: "('cr, 'a) prog \<Rightarrow> ('a \<Rightarrow> ('cr, 'b) prog) \<Rightarrow> ('cr, 'b) prog" where
  "bind m f s = (case m s of (Inl e, s') \<Rightarrow> (Inl e, s') | (Inr x, s') \<Rightarrow> f x s')"

text \<open>\<open>if err != nil { return errors.Wrap(err, msg) }\<close> around a computation.\<close>

definition wrapE :: "string \<Rightarrow> ('cr, 'a) prog \<Rightarrow> ('cr, 'a) prog" where
  "wrapE msg m s = (case m s of (Inl e, s') \<Rightarrow> (Inl (Wrap e msg), s') | (Inr x, s') \<Rightarrow> (Inr x, s'))"

definition get_cr :: "('cr, 'cr) prog" where
  "get_cr s = (Inr (cr s), s)"

definition modify_cr :: "('cr \<Rightarrow> 'cr) \<Rightarrow> ('cr, unit) prog" where
  "modify_cr f s = (Inr (), s\<lparr>cr := f (cr s)\<rparr>)"

definition api :: "env \<Rightarrow> call \<Rightarrow> ('cr, response) prog" where
  "api E c s =
     (let r = respond E (now s) (log s) c
      in (Inr r, s\<lparr>now := now s + int (latency E (now s) (log s) c), log := log s @ [(c, r)]\<rparr>))"

text \<open>The SDK's result shapes: \<open>error\<close>; \<open>(*Action, _, error)\<close>; \<open>([]*Action, _, error)\<close>.\<close>

definition api_err :: "env \<Rightarrow> call \<Rightarrow> ('cr, unit) prog" where
  "api_err E c = bind (api E c) (\<lambda>r. case r_err r of Some e \<Rightarrow> throw (Err e) | None \<Rightarrow> return ())"

definition api_action :: "env \<Rightarrow> call \<Rightarrow> ('cr, Action option) prog" where
  "api_action E c =
     bind (api E c) (\<lambda>r. case r_err r of Some e \<Rightarrow> throw (Err e) | None \<Rightarrow> return (r_action r))"

definition api_actions :: "env \<Rightarrow> call \<Rightarrow> ('cr, Action option list) prog" where
  "api_actions E c =
     bind (api E c) (\<lambda>r. case r_err r of Some e \<Rightarrow> throw (Err e) | None \<Rightarrow> return (r_actions r))"

definition api_volume :: "env \<Rightarrow> call \<Rightarrow> ('cr, hc_Volume option) prog" where
  "api_volume E c =
     bind (api E c) (\<lambda>r. case r_err r of Some e \<Rightarrow> throw (Err e) | None \<Rightarrow> return (r_volume r))"

subsection \<open>The clock\<close>

definition second :: int where
  "second = 1000000000"

definition minute :: int where
  "minute = 60 * second"

text \<open>\<open>time.Sleep(d)\<close> pauses for at least \<open>d\<close>; a non-positive \<open>d\<close> returns at once.\<close>

definition Sleep :: "env \<Rightarrow> int \<Rightarrow> 'cr state \<Rightarrow> 'cr state" where
  "Sleep E d s = s\<lparr>now := now s + max d 0 + int (oversleep E (now s) (log s))\<rparr>"

text \<open>\<open>time.Now().Unix()\<close>: the clock reading in whole seconds.\<close>

definition unix_now :: "('cr, int) prog" where
  "unix_now s = (Inr (now s div second), s)"

section \<open>pkg/hcloud/hcloud.go: the action awaiter\<close>

text \<open>
  The loop of \<open>WaitForActionCompletion\<close>, from the state in which an iteration starts:
  sleep one second, read the clock, give up when it is after \<open>timeoutTime\<close>, otherwise
  poll the action. A poll that finds no action returns a nil status, which the code
  dereferences. A status that is neither error nor success goes round again.
\<close>

function wait_loop :: "env \<Rightarrow> int \<Rightarrow> int \<Rightarrow> ('cr, unit) prog" where
  "wait_loop E aid timeoutTime s =
     (let s1 = Sleep E second s in
      if now s1 > timeoutTime then (Inl (Err ''action timed out''), s1)
      else (case api E (Action_GetByID aid) s1 of
              (Inl e, s2) \<Rightarrow> (Inl e, s2)
            | (Inr r, s2) \<Rightarrow>
                (case r_err r of
                   Some e \<Rightarrow> (Inl (Err e), s2)
                 | None \<Rightarrow>
                     (case r_action r of
                        None \<Rightarrow> (Inl NilPointerDereference, s2)
                      | Some status \<Rightarrow>
                          if act_Status status = ActionStatusError
                          then (Inl (Err (act_ErrorCode status @ '': '' @ act_ErrorMessage status)), s2)
                          else if act_Status status = ActionStatusSuccess then (Inr (), s2)
                          else wait_loop E aid timeoutTime s2))))"
  by pat_completeness auto
termination
proof (relation "measure (\<lambda>(E, aid, timeoutTime, s). nat (timeoutTime + second - now s))")
  show "wf (measure (\<lambda>(E, aid, timeoutTime, s). nat (timeoutTime + second - now s)))"
    by simp
next
  fix E :: env and aid timeoutTime :: int and s x :: "'a state" and x2 xa y r and x2a :: Action
  assume "x = Sleep E second s" and "\<not> timeoutTime < now x"
    and "(xa, y) = api E (Action_GetByID aid) x"
  then show "((E, aid, timeoutTime, y), (E, aid, timeoutTime, s))
      \<in> measure (\<lambda>(E, aid, timeoutTime, s). nat (timeoutTime + second - now s))"
    by (auto simp: Sleep_def api_def Let_def second_def)
qed

text \<open>
  \<open>WaitForActionCompletion(ctx, action, timeout...)\<close>: a nil action is success at once;
  the timeout defaults to one minute; the deadline is the clock reading at entry plus the
  timeout.
\<close>

definition WaitForActionCompletion :: "env \<Rightarrow> Action option \<Rightarrow> int list \<Rightarrow> ('cr, unit) prog" where
  "WaitForActionCompletion E action timeout s =
     (case action of
        None \<Rightarrow> (Inr (), s)
      | Some a \<Rightarrow>
          (let timeout0 = (case timeout of [] \<Rightarrow> minute | t # _ \<Rightarrow> t);
               startTime = now s;
               timeoutTime = startTime + timeout0
           in wait_loop E (act_ID a) timeoutTime s))"

declare wait_loop.simps [simp del]

subsection \<open>Vocabulary for the awaiter's properties\<close>

text \<open>The response to the poll sent from state \<open>s1\<close>, and the state after that poll.\<close>

definition poll :: "env \<Rightarrow> int \<Rightarrow> 'cr state \<Rightarrow> response" where
  "poll E aid s1 = respond E (now s1) (log s1) (Action_GetByID aid)"

definition polled :: "env \<Rightarrow> int \<Rightarrow> 'cr state \<Rightarrow> 'cr state" where
  "polled E aid s1 =
     s1\<lparr>now := now s1 + int (latency E (now s1) (log s1) (Action_GetByID aid)),
        log := log s1 @ [(Action_GetByID aid, poll E aid s1)]\<rparr>"

text \<open>A poll that observes a status: no error, an action, and that status.\<close>

definition observes :: "response \<Rightarrow> ActionStatus \<Rightarrow> Action \<Rightarrow> bool" where
  "observes r st a = (r_err r = None \<and> r_action r = Some a \<and> act_Status a = st)"

text \<open>A poll after which the loop goes round again: the action is still pending.\<close>

definition goes_on :: "response \<Rightarrow> bool" where
  "goes_on r = (\<exists>a. observes r ActionStatusRunning a)"

text \<open>The requests an operation added to the log, from the state before and the state after.\<close>

definition new_calls :: "'cr state \<Rightarrow> 'cr state \<Rightarrow> (call \<times> response) list" where
  "new_calls s s' = drop (length (log s)) (log s')"

text \<open>
  One round of the loop that polls: the sleep of one second, then the poll. \<open>sent E aid k s\<close>
  is the state in which poll number \<open>k\<close> (counted from 0) is sent when the loop starts in
  \<open>s\<close> and every earlier round polled: after \<open>k\<close> rounds and one more sleep. \<open>poll_list\<close>
  lists the first \<open>n\<close> polls with their responses.
\<close>

definition poll_round :: "env \<Rightarrow> int \<Rightarrow> 'cr state \<Rightarrow> 'cr state" where
  "poll_round E aid s = polled E aid (Sleep E second s)"

definition sent :: "env \<Rightarrow> int \<Rightarrow> nat \<Rightarrow> 'cr state \<Rightarrow> 'cr state" where
  "sent E aid k s = Sleep E second ((poll_round E aid ^^ k) s)"

definition poll_list :: "env \<Rightarrow> int \<Rightarrow> nat \<Rightarrow> 'cr state \<Rightarrow> (call \<times> response) list" where
  "poll_list E aid n s = map (\<lambda>j. (Action_GetByID aid, poll E aid (sent E aid j s))) [0..<n]"

text \<open>The timeout in force: the first of the optional arguments, one minute without any.\<close>

definition effective_timeout :: "int list \<Rightarrow> int" where
  "effective_timeout timeout = (case timeout of [] \<Rightarrow> minute | t # _ \<Rightarrow> t)"

text \<open>What the loop returns after a poll that does not go on, as the code tests its response.\<close>

definition poll_result :: "response \<Rightarrow> error + unit" where
  "poll_result r =
     (case r_err r of
        Some e \<Rightarrow> Inl (Err e)
      | None \<Rightarrow>
          (case r_action r of
             None \<Rightarrow> Inl NilPointerDereference
           | Some status \<Rightarrow>
               if act_Status status = ActionStatusError
               then Inl (Err (act_ErrorCode status @ '': '' @ act_ErrorMessage status))
               else Inr ()))"

subsection \<open>Example environments\<close>

text \<open>A response without error and without results.\<close>

definition ok_response :: response where
  "ok_response = \<lparr>r_err = None, r_action = None, r_actions = [], r_volume = None\<rparr>"

definition running_action :: Action where
  "running_action =
     \<lparr>act_ID = 1, act_Status = ActionStatusRunning, act_ErrorCode = [], act_ErrorMessage = []\<rparr>"

text \<open>Every action stays pending; requests and sleeps take no extra time.\<close>

definition always_running :: env where
  "always_running =
     \<lparr>respond = (\<lambda>t h c. ok_response\<lparr>r_action := Some running_action\<rparr>),
      latency = (\<lambda>t h c. 0),
      oversleep = (\<lambda>t h. 0)\<rparr>"

text \<open>
  The first poll finds the action running, every later one finds it failed; every request
  takes 5 ns and every sleep overruns by 3 ns.
\<close>

definition fails_on_second_poll :: env where
  "fails_on_second_poll =
     \<lparr>respond = (\<lambda>t h c. ok_response\<lparr>r_action :=
          Some (if h = [] then running_action
                else running_action\<lparr>act_Status := ActionStatusError, act_ErrorCode := ''locked'',
                       act_ErrorMessage := ''volume is locked''\<rparr>)\<rparr>),
      latency = (\<lambda>t h c. 5),
      oversleep = (\<lambda>t h. 3)\<rparr>"

definition start_state :: "'cr \<Rightarrow> 'cr state" where
  "start_state c = \<lparr>cr = c, now = 0, log = []\<rparr>"

section \<open>Managed resources\<close>

text \<open>
  The condition set by \<open>cr.SetConditions\<close>: \<open>xpv1.Available()\<close>, \<open>xpv1.Creating()\<close> and
  \<open>xpv1.Deleting()\<close> are the three values of the one condition of type Ready.
\<close>

datatype ReadyCondition = Available | Creating | Deleting

text \<open>
  Every kind has the same shape: \<open>ObjectMeta.Name\<close>, \<open>Spec.ForProvider\<close> (the desired
  parameters), \<open>Status.AtProvider.ID\<close> (the provider's ID) and the embedded pointer
  \<open>Status.AtProvider.*Parameters\<close> (the last applied parameters, \<open>None\<close> when nil).
\<close>

record 'p managed =
  Name :: string
  ForProvider :: 'p
  AtProvider_ID :: int
  AtProvider_Params :: "'p option"
  Ready :: "ReadyCondition option"

definition SetConditions :: "ReadyCondition \<Rightarrow> ('p managed, unit) prog" where
  "SetConditions c = modify_cr (\<lambda>m. m\<lparr>Ready := Some c\<rparr>)"

text \<open>\<open>c.kube.Status().Update(ctx, cr)\<close>.\<close>

definition kube_Status_Update :: "env \<Rightarrow> ('cr, unit) prog" where
  "kube_Status_Update E = api_err E Kube_Status_Update"

section \<open>apis/cloud/v1alpha1/volume\_types.go\<close>

record VolumeParameters =
  vp_Size :: int
  vp_Automount :: bool
  vp_Format :: string
  vp_Labels :: Labels
  vp_Location :: "string option"
  vp_ServerID :: "int ptr option"

type_synonym Volume = "VolumeParameters managed"

definition Volume_IsUpToDate :: "Volume \<Rightarrow> bool" where
  "Volume_IsUpToDate v =
     (let target = ForProvider v in
      case AtProvider_Params v of
        None \<Rightarrow> False
      | Some current \<Rightarrow>
          if \<not> DeepEqual (vp_Labels target) (vp_Labels current) then False
          else if \<not> ptr_eq (vp_ServerID current) (vp_ServerID target) then False
          else if vp_Size current < vp_Size target then False
          else True)"

section \<open>internal/controller/volume/volume.go\<close>

definition resize :: "env \<Rightarrow> hc_Volume \<Rightarrow> int \<Rightarrow> ('cr, unit) prog" where
  "resize E volume sz =
     bind (wrapE ''failed to trigger resize volume''
             (api_action E (Volume_Resize (hv_ID volume) sz)))
       (\<lambda>action. wrapE ''failed to resize volume'' (WaitForActionCompletion E action []))"

text \<open>The loop \<open>for _, p := range params\<close> of \<open>updateServerAttachment\<close>.\<close>

fun attach_each :: "env \<Rightarrow> hc_Volume \<Rightarrow> VolumeParameters list \<Rightarrow> ('cr, unit) prog" where
  "attach_each E volume [] = return ()"
| "attach_each E volume (p # ps) =
     bind (case vp_ServerID p of
             None \<Rightarrow> return ()
           | Some sid \<Rightarrow>
               bind (wrapE ''failed to trigger attach volume''
                       (api_action E (Volume_AttachWithOpts (hv_ID volume) (val sid) (vp_Automount p))))
                 (\<lambda>action. wrapE ''failed to attach volume'' (WaitForActionCompletion E action [])))
       (\<lambda>_. attach_each E volume ps)"

definition updateServerAttachment ::
    "env \<Rightarrow> hc_Volume \<Rightarrow> VolumeParameters list \<Rightarrow> ('cr, unit) prog" where
  "updateServerAttachment E volume params =
     bind (if hv_Server volume \<noteq> None
           then bind (wrapE ''failed to trigger detach volume''
                        (api_action E (Volume_Detach (hv_ID volume))))
                  (\<lambda>action. wrapE ''failed to detach volume'' (WaitForActionCompletion E action []))
           else return ())
       (\<lambda>_. attach_each E volume params)"

text \<open>
  \<open>Update\<close>. \<open>current\<close> is a copy of the last applied parameters, taken by dereferencing
  the embedded pointer (a panic when it is nil). The three assignments at the end write
  through that pointer.
\<close>

definition volume_Update :: "env \<Rightarrow> (Volume, unit) prog" where
  "volume_Update E =
     bind get_cr (\<lambda>cr0.
     bind (wrapE ''failed to get volume'' (api_volume E (Volume_GetByID (AtProvider_ID cr0))))
       (\<lambda>found.
     case found of
       None \<Rightarrow> throw (Err ''unknown volume'')
     | Some volume \<Rightarrow>
         (case AtProvider_Params cr0 of
            None \<Rightarrow> throw NilPointerDereference
          | Some current \<Rightarrow>
              (let target = ForProvider cr0 in
               bind unix_now (\<lambda>unix.
               bind (wrapE ''failed to update server''
                       (api_err E (Volume_Update (hv_ID volume)
                          (ApplyDefaultLabels unix [vp_Labels target]))))
                 (\<lambda>_.
               bind (if \<not> ptr_eq (vp_ServerID current) (vp_ServerID target)
                     then updateServerAttachment E volume [target]
                     else return ())
                 (\<lambda>_.
               bind (if vp_Size current < vp_Size target
                     then resize E volume (vp_Size target)
                     else return ())
                 (\<lambda>_.
               bind (modify_cr (\<lambda>m. m\<lparr>AtProvider_Params :=
                       map_option (\<lambda>p. p\<lparr>vp_Labels := vp_Labels target,
                                          vp_ServerID := vp_ServerID target,
                                          vp_Size := vp_Size target\<rparr>)
                         (AtProvider_Params m)\<rparr>))
                 (\<lambda>_. wrapE ''failed to save status'' (kube_Status_Update E))))))))))"

text \<open>
  \<open>Delete\<close>. The volume handed to the detach step is built from the recorded ID and the
  recorded server ID, read through the embedded pointer and through \<open>ServerID\<close> (a panic
  when either is nil).
\<close>

definition volume_Delete :: "env \<Rightarrow> (Volume, unit) prog" where
  "volume_Delete E =
     bind (SetConditions Deleting) (\<lambda>_.
     bind get_cr (\<lambda>cr0.
     case AtProvider_Params cr0 of
       None \<Rightarrow> throw NilPointerDereference
     | Some recorded \<Rightarrow>
         (case vp_ServerID recorded of
            None \<Rightarrow> throw NilPointerDereference
          | Some sid \<Rightarrow>
              (let volume = \<lparr>hv_ID = AtProvider_ID cr0, hv_Server = Some (val sid)\<rparr> in
               bind (wrapE ''failed to detach volumes before delete''
                       (updateServerAttachment E volume []))
                 (\<lambda>_. wrapE ''failed to delete volume'' (api_err E (Volume_Delete (hv_ID volume))))))))"

section \<open>Vocabulary for the controllers' properties\<close>

fun is_poll :: "call \<Rightarrow> bool" where
  "is_poll (Action_GetByID _) = True"
| "is_poll _ = False"

text \<open>
  A stretch of the log in which every request returned without error and every await ended
  well: a poll observed a pending or a successful action, and a poll that is not followed by
  another poll (the last poll of an await) observed success.
\<close>

fun awaited_ok :: "(call \<times> response) list \<Rightarrow> bool" where
  "awaited_ok [] = True"
| "awaited_ok [p] =
     (r_err (snd p) = None \<and>
      (is_poll (fst p) \<longrightarrow> (\<exists>a. observes (snd p) ActionStatusSuccess a)))"
| "awaited_ok (p # q # L) =
     (r_err (snd p) = None \<and>
      (is_poll (fst p) \<longrightarrow>
         (\<exists>a. observes (snd p) ActionStatusSuccess a) \<or> (is_poll (fst q) \<and> goes_on (snd p))) \<and>
      awaited_ok (q # L))"

text \<open>
  A computation that leaves the managed resource alone, only appends to the log, and whose
  requests and awaits all ended well when it returns without error.
\<close>

definition clean :: "('cr, 'a) prog \<Rightarrow> bool" where
  "clean m =
     (\<forall>s res s'. m s = (res, s') \<longrightarrow>
        cr s' = cr s \<and> (\<exists>L. log s' = log s @ L \<and> (\<forall>x. res = Inr x \<longrightarrow> awaited_ok L)))"

text \<open>A computation whose first request is \<open>c\<close>.\<close>

definition starts_with :: "call \<Rightarrow> ('cr, 'a) prog \<Rightarrow> bool" where
  "starts_with c m = (\<forall>s res s'. m s = (res, s') \<longrightarrow> (\<exists>r L. log s' = log s @ (c, r) # L))"

fun is_Volume_Resize :: "call \<Rightarrow> bool" where
  "is_Volume_Resize (Volume_Resize _ _) = True"
| "is_Volume_Resize _ = False"

subsection \<open>Example volumes and environments\<close>

text \<open>
  A volume recorded at 20 GB whose desired size is 10 GB; labels and server attachment (none)
  are as recorded.
\<close>

definition shrinking_volume :: Volume where
  "shrinking_volume =
     \<lparr>Name = ''data'',
      ForProvider = \<lparr>vp_Size = 10, vp_Automount = False, vp_Format = ''ext4'',
        vp_Labels = Some [''team'' \<mapsto> ''x''], vp_Location = None, vp_ServerID = None\<rparr>,
      AtProvider_ID = 5,
      AtProvider_Params = Some \<lparr>vp_Size = 20, vp_Automount = False, vp_Format = ''ext4'',
        vp_Labels = Some [''team'' \<mapsto> ''x''], vp_Location = None, vp_ServerID = None\<rparr>,
      Ready = Some Available\<rparr>"

text \<open>
  Every request is answered without error; a lookup of a volume finds it, unattached; no
  request returns an action.
\<close>

definition accepts_all :: env where
  "accepts_all =
     \<lparr>respond = (\<lambda>t h c. case c of
          Volume_GetByID i \<Rightarrow> ok_response\<lparr>r_volume := Some \<lparr>hv_ID = i, hv_Server = None\<rparr>\<rparr>
        | _ \<Rightarrow> ok_response),
      latency = (\<lambda>t h c. 0),
      oversleep = (\<lambda>t h. 0)\<rparr>"

text \<open>
  A volume attached to server 7, as a pass finds it in memory after decoding it from the
  store: the desired and the recorded \<open>ServerID\<close> are two allocations (addresses 1 and 2)
  that hold the same ID. Labels and sizes are as recorded.
\<close>

definition attached_volume :: Volume where
  "attached_volume =
     \<lparr>Name = ''data'',
      ForProvider = \<lparr>vp_Size = 10, vp_Automount = False, vp_Format = ''ext4'',
        vp_Labels = Some [''team'' \<mapsto> ''x''], vp_Location = None, vp_ServerID = Some (Ptr 1 7)\<rparr>,
      AtProvider_ID = 5,
      AtProvider_Params = Some \<lparr>vp_Size = 10, vp_Automount = False, vp_Format = ''ext4'',
        vp_Labels = Some [''team'' \<mapsto> ''x''], vp_Location = None, vp_ServerID = Some (Ptr 2 7)\<rparr>,
      Ready = Some Available\<rparr>"

text \<open>A computation that only appends to the log.\<close>

definition appends :: "('cr, 'a) prog \<Rightarrow> bool" where
  "appends m = (\<forall>s res s'. m s = (res, s') \<longrightarrow> (\<exists>L. log s' = log s @ L))"

section \<open>Properties of the decimal rendering\<close>


lemma digit_value_digit_char: "d < 10 \<Longrightarrow> digit_value (digit_char d) = d"
proof -
  assume "d < 10"
  then have "d \<in> {0, 1, 2, 3, 4, 5, 6, 7, 8, 9}" by auto
  then show ?thesis
    by (auto simp: digit_value_def digit_char_def)
qed

lemma decimal_value_snoc: "decimal_value (s @ [c]) = 10 * decimal_value s + digit_value c"
  by (simp add: decimal_value_def)

lemma decimal_value_digits: "decimal_value (digits n) = n"
proof (induction n rule: digits.induct)
  case (1 n)
  show ?case
  proof (cases "n < 10")
    case True
    then show ?thesis
      by (simp add: digits.simps [of n] decimal_value_def digit_value_digit_char)
  next
    case False
    with 1 have "decimal_value (digits (n div 10)) = n div 10" by simp
    with False show ?thesis
      by (simp add: digits.simps [of n] decimal_value_snoc digit_value_digit_char)
  qed
qed

section \<open>Label merge\<close>

lemma ApplyDefaultLabels_single:
  "ApplyDefaultLabels unix [l] k =
     (case (case l of None \<Rightarrow> Map.empty | Some m \<Rightarrow> m) k of
        Some v \<Rightarrow> Some v
      | None \<Rightarrow> default_labels unix k)"
  by (simp add: ApplyDefaultLabels_def map_add_def split: option.splits)

text \<open>
  C1 (as the code has it). For every caller-supplied label map \<open>m\<close>, the map returned by
  \<open>ApplyDefaultLabels\<close> contains the provider-identity key and the generation-timestamp
  key and holds every caller entry unchanged. A system key holds its system value when the
  caller does not supply that key; when the caller supplies it, the caller's value is the
  one returned. No other key is added.
\<close>

theorem ApplyDefaultLabels_merge:
  "ProviderLabel \<in> dom (ApplyDefaultLabels unix [Some m]) \<and>
   GeneratedDateTime \<in> dom (ApplyDefaultLabels unix [Some m]) \<and>
   (\<forall>k v. m k = Some v \<longrightarrow> ApplyDefaultLabels unix [Some m] k = Some v) \<and>
   (m ProviderLabel = None \<longrightarrow>
      ApplyDefaultLabels unix [Some m] ProviderLabel = Some Provider) \<and>
   (m GeneratedDateTime = None \<longrightarrow>
      ApplyDefaultLabels unix [Some m] GeneratedDateTime = Some (FormatInt unix)) \<and>
   (\<forall>k. m k = None \<longrightarrow> k \<noteq> ProviderLabel \<longrightarrow> k \<noteq> GeneratedDateTime \<longrightarrow>
      ApplyDefaultLabels unix [Some m] k = None)"
  by (auto simp: ApplyDefaultLabels_single default_labels_def dom_def
        ProviderLabel_def GeneratedDateTime_def split: option.splits)

theorem ApplyDefaultLabels_merge_witness:
  "ApplyDefaultLabels 1700000000 [Some [''team'' \<mapsto> ''x'']] ''team'' = Some ''x'' \<and>
   ApplyDefaultLabels 1700000000 [Some [''team'' \<mapsto> ''x'']] ProviderLabel =
     Some ''provider-hetzner'' \<and>
   ApplyDefaultLabels 1700000000 [Some [''team'' \<mapsto> ''x'']] GeneratedDateTime =
     Some ''1700000000'' \<and>
   ApplyDefaultLabels 1700000000 [Some [''team'' \<mapsto> ''x'']] ''other'' = None"
  using ApplyDefaultLabels_merge [of 1700000000 "[''team'' \<mapsto> ''x'']"]
  by (simp add: ProviderLabel_def GeneratedDateTime_def Provider_def FormatInt_def Itoa_def
        digits.simps digit_char_def)

text \<open>
  C1 as the specification states it fails: a caller entry under the provider-identity key
  replaces the system value.
\<close>

theorem ApplyDefaultLabels_caller_overrides:
  "ApplyDefaultLabels 1700000000 [Some [ProviderLabel \<mapsto> ''someone-else'']] ProviderLabel =
     Some ''someone-else'' \<and>
   ApplyDefaultLabels 1700000000 [Some [ProviderLabel \<mapsto> ''someone-else'']] ProviderLabel \<noteq>
     Some Provider"
  by (simp add: ApplyDefaultLabels_def default_labels_def Provider_def)

section \<open>Port formatting\<close>

text \<open>
  C8. \<open>FirewallPort.String\<close> yields \<open>any\<close> when the all flag is set (whatever start and
  end hold); with the flag unset it yields the decimal rendering of the start port when
  only start is set, the same when start and end are set and equal, and start, a hyphen
  and end when they are set and differ.
\<close>

theorem FirewallPort_String_format:
  "FirewallPort_String (Some \<lparr>All = True, Start = s, End = e\<rparr>) = ''any'' \<and>
   FirewallPort_String (Some \<lparr>All = False, Start = Some n, End = None\<rparr>) = Itoa n \<and>
   FirewallPort_String (Some \<lparr>All = False, Start = Some n, End = Some n\<rparr>) = Itoa n \<and>
   (n \<noteq> m \<longrightarrow>
      FirewallPort_String (Some \<lparr>All = False, Start = Some n, End = Some m\<rparr>) =
        Itoa n @ ''-'' @ Itoa m)"
  by (simp add: FirewallPort_String_def)

theorem FirewallPort_String_format_witness:
  "FirewallPort_String (Some \<lparr>All = True, Start = None, End = None\<rparr>) = ''any'' \<and>
   FirewallPort_String (Some \<lparr>All = False, Start = Some 80, End = None\<rparr>) = ''80'' \<and>
   FirewallPort_String (Some \<lparr>All = False, Start = Some 80, End = Some 80\<rparr>) = ''80'' \<and>
   FirewallPort_String (Some \<lparr>All = False, Start = Some 80, End = Some 90\<rparr>) = ''80-90''"
  using FirewallPort_String_format [of None None 80 90]
  by (simp add: Itoa_def digits.simps digit_char_def)

section \<open>The action awaiter\<close>

lemma api_poll: "api E (Action_GetByID aid) s1 = (Inr (poll E aid s1), polled E aid s1)"
  by (simp add: api_def poll_def polled_def Let_def)

lemma goes_on_iff:
  "goes_on r \<longleftrightarrow> r_err r = None \<and> (\<exists>a. r_action r = Some a \<and> act_Status a \<noteq> ActionStatusError
      \<and> act_Status a \<noteq> ActionStatusSuccess)"
proof -
  have "st \<noteq> ActionStatusError \<and> st \<noteq> ActionStatusSuccess \<longleftrightarrow> st = ActionStatusRunning" for st
    by (cases st) auto
  then show ?thesis by (auto simp: goes_on_def observes_def)
qed

lemma wait_loop_unfold:
  "wait_loop E aid T s =
     (let s1 = Sleep E second s; r = poll E aid s1; s2 = polled E aid s1
      in if now s1 > T then (Inl (Err ''action timed out''), s1)
         else (case r_err r of
                 Some e \<Rightarrow> (Inl (Err e), s2)
               | None \<Rightarrow>
                   (case r_action r of
                      None \<Rightarrow> (Inl NilPointerDereference, s2)
                    | Some status \<Rightarrow>
                        if act_Status status = ActionStatusError
                        then (Inl (Err (act_ErrorCode status @ '': '' @ act_ErrorMessage status)), s2)
                        else if act_Status status = ActionStatusSuccess then (Inr (), s2)
                        else wait_loop E aid T s2)))"
  by (subst wait_loop.simps) (simp add: api_poll Let_def)

lemma wait_loop_induct2 [case_names step]:
  assumes step: "\<And>s. (\<lbrakk>\<not> T < now (Sleep E second s); goes_on (poll E aid (Sleep E second s))\<rbrakk>
             \<Longrightarrow> P (polled E aid (Sleep E second s))) \<Longrightarrow> P s"
  shows "P (s :: 'cr state)"
proof -
  have "E' = E \<longrightarrow> aid' = aid \<longrightarrow> T' = T \<longrightarrow> P s" for E' aid' T'
  proof (induction E' aid' T' s rule: wait_loop.induct)
    case (1 E' aid' T' s)
    show ?case
    proof (intro impI)
      assume eqs: "E' = E" "aid' = aid" "T' = T"
      show "P s"
      proof (rule step)
        assume a: "\<not> T < now (Sleep E second s)" and g: "goes_on (poll E aid (Sleep E second s))"
        from g obtain st where st: "r_err (poll E aid (Sleep E second s)) = None"
          "r_action (poll E aid (Sleep E second s)) = Some st"
          "act_Status st \<noteq> ActionStatusError" "act_Status st \<noteq> ActionStatusSuccess"
          by (auto simp: goes_on_iff)
        have "E' = E \<longrightarrow> aid' = aid \<longrightarrow> T' = T \<longrightarrow> P (polled E aid (Sleep E second s))"
          using "1.IH" [of "Sleep E second s" "Inr (poll E aid (Sleep E second s))"
              "polled E aid (Sleep E second s)" "poll E aid (Sleep E second s)" st]
            a st eqs api_poll [of E aid "Sleep E second s"]
          by simp
        with eqs show "P (polled E aid (Sleep E second s))" by simp
      qed
    qed
  qed
  then show ?thesis by simp
qed

text \<open>One iteration, by cases.\<close>

lemma wait_loop_timeout:
  "T < now (Sleep E second s) \<Longrightarrow>
     wait_loop E aid T s = (Inl (Err ''action timed out''), Sleep E second s)"
  by (subst wait_loop_unfold) (simp add: Let_def)

lemma wait_loop_goes_on:
  "\<not> T < now (Sleep E second s) \<Longrightarrow> goes_on (poll E aid (Sleep E second s)) \<Longrightarrow>
     wait_loop E aid T s = wait_loop E aid T (polled E aid (Sleep E second s))"
  by (subst wait_loop_unfold) (auto simp: Let_def goes_on_iff)

lemma wait_loop_stops:
  "\<not> T < now (Sleep E second s) \<Longrightarrow> \<not> goes_on (poll E aid (Sleep E second s)) \<Longrightarrow>
     wait_loop E aid T s =
       (case r_err (poll E aid (Sleep E second s)) of
          Some e \<Rightarrow> Inl (Err e)
        | None \<Rightarrow>
            (case r_action (poll E aid (Sleep E second s)) of
               None \<Rightarrow> Inl NilPointerDereference
             | Some a \<Rightarrow>
                 if act_Status a = ActionStatusError
                 then Inl (Err (act_ErrorCode a @ '': '' @ act_ErrorMessage a))
                 else Inr ()),
        polled E aid (Sleep E second s))"
  by (subst wait_loop_unfold) (auto simp: Let_def goes_on_iff split: option.splits)

lemma log_Sleep [simp]: "log (Sleep E d s) = log s" and cr_Sleep [simp]: "cr (Sleep E d s) = cr s"
  by (simp_all add: Sleep_def)

lemma log_polled [simp]: "log (polled E aid s) = log s @ [(Action_GetByID aid, poll E aid s)]"
  and cr_polled [simp]: "cr (polled E aid s) = cr s"
  by (simp_all add: polled_def)

lemma now_Sleep: "now (Sleep E second s) = now s + second + int (oversleep E (now s) (log s))"
  by (simp add: Sleep_def second_def)

lemma now_polled: "now (polled E aid s) = now s + int (latency E (now s) (log s) (Action_GetByID aid))"
  by (simp add: polled_def)

lemma wait_loop_frame:
  "wait_loop E aid T s = (res, s') \<Longrightarrow>
     cr s' = cr s \<and> (\<exists>polls. log s' = log s @ polls \<and> (\<forall>p \<in> set polls. fst p = Action_GetByID aid))"
proof (induction s arbitrary: res s' rule: wait_loop_induct2 [where E = E and aid = aid and T = T])
  case (step s)
  let ?s1 = "Sleep E second s"
  consider (timeout) "T < now ?s1"
    | (stop) "\<not> T < now ?s1" "\<not> goes_on (poll E aid ?s1)"
    | (go) "\<not> T < now ?s1" "goes_on (poll E aid ?s1)"
    by blast
  then show ?case
  proof cases
    case timeout
    with step.prems show ?thesis by (auto simp: wait_loop_timeout)
  next
    case stop
    with step.prems show ?thesis by (auto simp: wait_loop_stops)
  next
    case go
    with step.prems have "wait_loop E aid T (polled E aid ?s1) = (res, s')"
      by (simp add: wait_loop_goes_on)
    from step.IH [OF go this] show ?thesis by auto
  qed
qed


lemma new_calls_append [simp]: "log s' = log s @ polls \<Longrightarrow> new_calls s s' = polls"
  by (simp add: new_calls_def)

lemma wait_loop_log:
  "wait_loop E aid T s = (res, s') \<Longrightarrow> log s' = log s @ new_calls s s'"
  using wait_loop_frame [of E aid T s res s'] by auto

text \<open>The polls of the rest of the loop are the new calls but the first.\<close>

lemma new_calls_polled:
  assumes "log s' = log (polled E aid s1) @ polls" and "log s1 = log s"
  shows "new_calls s s' = (Action_GetByID aid, poll E aid s1) # new_calls (polled E aid s1) s'"
  using assms by (simp add: new_calls_def)

lemma wait_loop_observed:
  "wait_loop E aid T s = (res, s') \<Longrightarrow> p \<in> set (new_calls s s') \<Longrightarrow>
     (observes (snd p) ActionStatusError a \<longrightarrow>
        res = Inl (Err (act_ErrorCode a @ '': '' @ act_ErrorMessage a))) \<and>
     (observes (snd p) ActionStatusSuccess a \<longrightarrow> res = Inr ())"
proof (induction s arbitrary: res s' rule: wait_loop_induct2 [where E = E and aid = aid and T = T])
  case (step s)
  let ?s1 = "Sleep E second s"
  consider (timeout) "T < now ?s1"
    | (stop) "\<not> T < now ?s1" "\<not> goes_on (poll E aid ?s1)"
    | (go) "\<not> T < now ?s1" "goes_on (poll E aid ?s1)"
    by blast
  then show ?case
  proof cases
    case timeout
    with step.prems show ?thesis by (auto simp: wait_loop_timeout new_calls_def)
  next
    case stop
    with step.prems show ?thesis
      by (auto simp: wait_loop_stops new_calls_def observes_def split: option.splits)
  next
    case go
    with step.prems have w: "wait_loop E aid T (polled E aid ?s1) = (res, s')"
      by (simp add: wait_loop_goes_on)
    from wait_loop_log [OF w]
    have nc: "new_calls s s' = (Action_GetByID aid, poll E aid ?s1) # new_calls (polled E aid ?s1) s'"
      by (rule new_calls_polled) simp
    from go(2) have "\<not> observes (poll E aid ?s1) ActionStatusError a"
      "\<not> observes (poll E aid ?s1) ActionStatusSuccess a"
      by (auto simp: goes_on_def observes_def)
    with step.prems(2) nc step.IH [OF go w] show ?thesis by auto
  qed
qed

lemma wait_loop_success:
  "wait_loop E aid T s = (Inr (), s') \<Longrightarrow>
     new_calls s s' \<noteq> [] \<and> (\<exists>a. observes (snd (last (new_calls s s'))) ActionStatusSuccess a)"
proof (induction s arbitrary: s' rule: wait_loop_induct2 [where E = E and aid = aid and T = T])
  case (step s)
  let ?s1 = "Sleep E second s"
  consider (timeout) "T < now ?s1"
    | (stop) "\<not> T < now ?s1" "\<not> goes_on (poll E aid ?s1)"
    | (go) "\<not> T < now ?s1" "goes_on (poll E aid ?s1)"
    by blast
  then show ?case
  proof cases
    case timeout
    with step.prems show ?thesis by (auto simp: wait_loop_timeout)
  next
    case stop
    have "st \<noteq> ActionStatusError \<Longrightarrow> st \<noteq> ActionStatusRunning \<Longrightarrow> st = ActionStatusSuccess" for st
      by (cases st) auto
    with stop step.prems show ?thesis
      by (auto simp: wait_loop_stops new_calls_def observes_def goes_on_def
          split: option.splits if_splits)
  next
    case go
    with step.prems have w: "wait_loop E aid T (polled E aid ?s1) = (Inr (), s')"
      by (simp add: wait_loop_goes_on)
    from wait_loop_log [OF w]
    have nc: "new_calls s s' = (Action_GetByID aid, poll E aid ?s1) # new_calls (polled E aid ?s1) s'"
      by (rule new_calls_polled) simp
    with step.IH [OF go w] show ?thesis by auto
  qed
qed

text \<open>Polls are at least one second apart and none is sent after the deadline.\<close>

lemma wait_loop_spacing:
  "wait_loop E aid T s = (res, s') \<Longrightarrow> new_calls s s' \<noteq> [] \<Longrightarrow>
     int (length (new_calls s s')) * second \<le> T - now s"
proof (induction s arbitrary: res s' rule: wait_loop_induct2 [where E = E and aid = aid and T = T])
  case (step s)
  let ?s1 = "Sleep E second s"
  have s1: "now s + second \<le> now ?s1" by (simp add: now_Sleep)
  consider (timeout) "T < now ?s1"
    | (stop) "\<not> T < now ?s1" "\<not> goes_on (poll E aid ?s1)"
    | (go) "\<not> T < now ?s1" "goes_on (poll E aid ?s1)"
    by blast
  then show ?case
  proof cases
    case timeout
    with step.prems show ?thesis by (auto simp: wait_loop_timeout new_calls_def)
  next
    case stop
    with step.prems s1 show ?thesis by (auto simp: wait_loop_stops new_calls_def)
  next
    case go
    with step.prems have w: "wait_loop E aid T (polled E aid ?s1) = (res, s')"
      by (simp add: wait_loop_goes_on)
    from wait_loop_log [OF w]
    have nc: "new_calls s s' = (Action_GetByID aid, poll E aid ?s1) # new_calls (polled E aid ?s1) s'"
      by (rule new_calls_polled) simp
    have s2: "now ?s1 \<le> now (polled E aid ?s1)" by (simp add: now_polled)
    show ?thesis
    proof (cases "new_calls (polled E aid ?s1) s' = []")
      case True
      with nc s1 go(1) show ?thesis by simp
    next
      case False
      from step.IH [OF go w False] s1 s2 nc show ?thesis by (simp add: algebra_simps)
    qed
  qed
qed

text \<open>An action that stays pending: the loop ends by the clock, after the deadline.\<close>

lemma wait_loop_pending:
  assumes pending: "\<And>t h. goes_on (respond E t h (Action_GetByID aid))"
    and lat: "\<And>t h c. int (latency E t h c) \<le> dl"
    and ovs: "\<And>t h. int (oversleep E t h) \<le> ds"
  shows "wait_loop E aid T s = (res, s') \<Longrightarrow> now s \<le> T + dl \<Longrightarrow>
     res = Inl (Err ''action timed out'') \<and> T < now s' \<and> now s' \<le> T + dl + second + ds"
proof (induction s arbitrary: res s' rule: wait_loop_induct2 [where E = E and aid = aid and T = T])
  case (step s)
  let ?s1 = "Sleep E second s"
  have g: "goes_on (poll E aid ?s1)" by (simp add: poll_def pending)
  have s1: "now ?s1 \<le> now s + second + ds" using ovs [of "now s" "log s"] by (simp add: now_Sleep)
  show ?case
  proof (cases "T < now ?s1")
    case True
    with step.prems s1 show ?thesis by (auto simp: wait_loop_timeout)
  next
    case False
    with step.prems g have w: "wait_loop E aid T (polled E aid ?s1) = (res, s')"
      by (simp add: wait_loop_goes_on)
    have "now (polled E aid ?s1) \<le> T + dl"
      using False lat [of "now ?s1" "log ?s1" "Action_GetByID aid"] by (simp add: now_polled)
    from step.IH [OF False g w this] show ?thesis .
  qed
qed

lemma wait_loop_exact:
  assumes pending: "\<And>t h. goes_on (respond E t h (Action_GetByID aid))"
    and lat: "\<And>t h c. latency E t h c = 0"
    and ovs: "\<And>t h. oversleep E t h = 0"
  shows "now s = T - int k * second \<Longrightarrow>
     fst (wait_loop E aid T s) = Inl (Err ''action timed out'') \<and>
     now (snd (wait_loop E aid T s)) = T + second \<and>
     length (new_calls s (snd (wait_loop E aid T s))) = k"
proof (induction k arbitrary: s)
  case 0
  have "0 < second" by (simp add: second_def)
  with 0 have "T < now (Sleep E second s)" by (simp add: now_Sleep ovs)
  then show ?case using 0 by (simp add: wait_loop_timeout now_Sleep ovs new_calls_def)
next
  case (Suc k)
  let ?s1 = "Sleep E second s"
  from Suc.prems have s1: "now ?s1 = T - int k * second" by (simp add: now_Sleep ovs algebra_simps)
  have "0 \<le> int k * second" by (simp add: second_def)
  with s1 have le: "\<not> T < now ?s1" by simp
  have g: "goes_on (poll E aid ?s1)" by (simp add: poll_def pending)
  have w: "wait_loop E aid T s = wait_loop E aid T (polled E aid ?s1)"
    using le g by (rule wait_loop_goes_on)
  have "now (polled E aid ?s1) = T - int k * second" using s1 by (simp add: now_polled lat)
  from Suc.IH [OF this] have ih: "fst (wait_loop E aid T s) = Inl (Err ''action timed out'')"
    "now (snd (wait_loop E aid T s)) = T + second"
    "length (new_calls (polled E aid ?s1) (snd (wait_loop E aid T s))) = k"
    by (simp_all add: w)
  obtain res s' where r: "wait_loop E aid T (polled E aid ?s1) = (res, s')" by fastforce
  from wait_loop_log [OF r]
  have "new_calls s s' = (Action_GetByID aid, poll E aid ?s1) # new_calls (polled E aid ?s1) s'"
    by (rule new_calls_polled) simp
  with ih r w show ?case by simp
qed

lemma sent_0: "sent E aid 0 s = Sleep E second s"
  by (simp add: sent_def)

lemma sent_Suc: "sent E aid (Suc k) s = sent E aid k (poll_round E aid s)"
  by (simp add: sent_def funpow_swap1)

lemma poll_list_0 [simp]: "poll_list E aid 0 s = []"
  by (simp add: poll_list_def)

lemma poll_list_Suc:
  "poll_list E aid (Suc n) s =
     (Action_GetByID aid, poll E aid (Sleep E second s)) # poll_list E aid n (poll_round E aid s)"
proof -
  have "[0..<Suc n] = 0 # map Suc [0..<n]"
    by (simp add: upt_conv_Cons map_Suc_upt del: upt_Suc)
  then show ?thesis
    by (simp add: poll_list_def sent_0 sent_Suc comp_def del: upt_Suc)
qed

lemma length_poll_list [simp]: "length (poll_list E aid n s) = n"
  by (simp add: poll_list_def)

lemma log_sent: "log (sent E aid k s) = log s @ poll_list E aid k s"
proof (induction k arbitrary: s)
  case 0
  show ?case by (simp add: sent_0)
next
  case (Suc k)
  show ?case
    by (simp add: sent_Suc Suc.IH poll_list_Suc) (simp add: poll_round_def)
qed

lemma cr_sent [simp]: "cr (sent E aid k s) = cr s"
proof (induction k arbitrary: s)
  case 0
  show ?case by (simp add: sent_0)
next
  case (Suc k)
  show ?case by (simp add: sent_Suc Suc.IH) (simp add: poll_round_def)
qed

text \<open>
  The run of the loop, round by round: it polls in every round until a sleep ends after the
  deadline or a poll does not go on, and there is such a round.
\<close>

lemma wait_loop_rounds:
  "\<exists>k. (\<forall>j<k. \<not> T < now (sent E aid j s) \<and> goes_on (poll E aid (sent E aid j s))) \<and>
       (if T < now (sent E aid k s)
        then wait_loop E aid T s = (Inl (Err ''action timed out''), sent E aid k s)
        else \<not> goes_on (poll E aid (sent E aid k s)) \<and>
             wait_loop E aid T s =
               (poll_result (poll E aid (sent E aid k s)), polled E aid (sent E aid k s)))"
proof (induction s rule: wait_loop_induct2 [where E = E and aid = aid and T = T])
  case (step s)
  let ?s1 = "Sleep E second s"
  consider (timeout) "T < now ?s1"
    | (stop) "\<not> T < now ?s1" "\<not> goes_on (poll E aid ?s1)"
    | (go) "\<not> T < now ?s1" "goes_on (poll E aid ?s1)"
    by blast
  then show ?case
  proof cases
    case timeout
    then show ?thesis
      by (intro exI [of _ 0]) (simp add: sent_0 wait_loop_timeout)
  next
    case stop
    then show ?thesis
      by (intro exI [of _ 0]) (simp add: sent_0 wait_loop_stops poll_result_def)
  next
    case go
    from step.IH [OF go] obtain k where
      k: "\<forall>j<k. \<not> T < now (sent E aid j (poll_round E aid s)) \<and>
            goes_on (poll E aid (sent E aid j (poll_round E aid s)))"
      and r: "if T < now (sent E aid k (poll_round E aid s))
        then wait_loop E aid T (poll_round E aid s) =
               (Inl (Err ''action timed out''), sent E aid k (poll_round E aid s))
        else \<not> goes_on (poll E aid (sent E aid k (poll_round E aid s))) \<and>
             wait_loop E aid T (poll_round E aid s) =
               (poll_result (poll E aid (sent E aid k (poll_round E aid s))),
                polled E aid (sent E aid k (poll_round E aid s)))"
      unfolding poll_round_def by blast
    have w: "wait_loop E aid T s = wait_loop E aid T (poll_round E aid s)"
      unfolding poll_round_def using go by (rule wait_loop_goes_on)
    have pre: "\<forall>j<Suc k. \<not> T < now (sent E aid j s) \<and> goes_on (poll E aid (sent E aid j s))"
    proof (intro allI impI)
      fix j assume "j < Suc k"
      show "\<not> T < now (sent E aid j s) \<and> goes_on (poll E aid (sent E aid j s))"
      proof (cases j)
        case 0
        with go show ?thesis by (simp add: sent_0)
      next
        case (Suc i)
        with \<open>j < Suc k\<close> k show ?thesis by (simp add: sent_Suc)
      qed
    qed
    show ?thesis
    proof (intro exI [of _ "Suc k"] conjI pre)
      show "if T < now (sent E aid (Suc k) s)
        then wait_loop E aid T s = (Inl (Err ''action timed out''), sent E aid (Suc k) s)
        else \<not> goes_on (poll E aid (sent E aid (Suc k) s)) \<and>
             wait_loop E aid T s =
               (poll_result (poll E aid (sent E aid (Suc k) s)), polled E aid (sent E aid (Suc k) s))"
        using r unfolding sent_Suc w .
    qed
  qed
qed

text \<open>Each poll is sent one sleep of one second after the previous one returned.\<close>

lemma now_sent_0: "now (sent E aid 0 s) = now s + second + int (oversleep E (now s) (log s))"
  by (simp add: sent_0 now_Sleep)

lemma now_sent_Suc:
  "now (sent E aid (Suc k) s) =
     now (polled E aid (sent E aid k s)) + second +
       int (oversleep E (now (polled E aid (sent E aid k s))) (log (polled E aid (sent E aid k s))))"
proof -
  have "sent E aid (Suc k) s = Sleep E second (polled E aid (sent E aid k s))"
    by (simp add: sent_def poll_round_def)
  then show ?thesis by (simp only: now_Sleep)
qed

lemma now_sent_spacing: "now (sent E aid k s) + second \<le> now (sent E aid (Suc k) s)"
  by (simp only: now_sent_Suc) (simp add: now_polled)

lemma now_sent_exact:
  assumes lat: "\<And>t h c. latency E t h c = 0" and ovs: "\<And>t h. oversleep E t h = 0"
  shows "now (sent E aid k s) = now s + (int k + 1) * second"
proof (induction k)
  case 0
  show ?case by (simp add: now_sent_0 ovs)
next
  case (Suc k)
  show ?case
    by (simp only: now_sent_Suc) (simp add: now_polled lat ovs Suc.IH algebra_simps)
qed


text \<open>
  With exact sleeps and instantaneous requests, an action that stays pending is polled once
  a second, at 1 s, 2 s, ... up to the deadline, and the timeout error comes at the first
  whole second after the deadline.
\<close>

lemma wait_loop_exact_rounds:
  assumes pending: "\<And>t h. goes_on (respond E t h (Action_GetByID aid))"
    and lat: "\<And>t h c. latency E t h c = 0"
    and ovs: "\<And>t h. oversleep E t h = 0"
    and T0: "0 \<le> T0"
  shows "wait_loop E aid (now s + T0) s =
           (Inl (Err ''action timed out''), sent E aid (nat (T0 div second)) s) \<and>
         now (sent E aid (nat (T0 div second)) s) = now s + (T0 div second + 1) * second"
proof -
  have sec: "0 < second" by (simp add: second_def)
  from wait_loop_rounds [of "now s + T0" E aid s] obtain k where
    pre: "\<forall>j<k. \<not> now s + T0 < now (sent E aid j s)"
    and r: "if now s + T0 < now (sent E aid k s)
        then wait_loop E aid (now s + T0) s = (Inl (Err ''action timed out''), sent E aid k s)
        else \<not> goes_on (poll E aid (sent E aid k s)) \<and>
             wait_loop E aid (now s + T0) s =
               (poll_result (poll E aid (sent E aid k s)), polled E aid (sent E aid k s))"
    by blast
  have g: "goes_on (poll E aid (sent E aid k s))" by (simp add: poll_def pending)
  with r have late: "now s + T0 < now (sent E aid k s)"
    and w: "wait_loop E aid (now s + T0) s = (Inl (Err ''action timed out''), sent E aid k s)"
    by (auto split: if_splits)
  from late have up: "T0 < (int k + 1) * second"
    by (simp add: now_sent_exact [OF lat ovs])
  have low: "int k * second \<le> T0"
  proof (cases k)
    case 0
    with T0 show ?thesis by simp
  next
    case (Suc i)
    with pre have n: "\<not> now s + T0 < now (sent E aid i s)" by simp
    have "now (sent E aid i s) = now s + int k * second"
      using Suc by (simp add: now_sent_exact [OF lat ovs] algebra_simps)
    with n show ?thesis by linarith
  qed
  have "T0 div second = int k"
  proof (rule int_div_pos_eq [of T0 second "int k" "T0 - int k * second"])
    show "T0 = second * int k + (T0 - int k * second)" by (simp add: algebra_simps)
    show "0 \<le> T0 - int k * second" using low by simp
    show "T0 - int k * second < second" using up by (simp add: algebra_simps)
  qed
  then have k: "nat (T0 div second) = k" by simp
  show ?thesis
    unfolding k using w by (simp add: now_sent_exact [OF lat ovs] \<open>T0 div second = int k\<close>)
qed


lemma wait_loop_skip:
  "(\<forall>j<k. \<not> T < now (sent E aid j s) \<and> goes_on (poll E aid (sent E aid j s))) \<Longrightarrow>
     wait_loop E aid T s = wait_loop E aid T ((poll_round E aid ^^ k) s)"
proof (induction k arbitrary: s)
  case 0
  show ?case by simp
next
  case (Suc k)
  from Suc.prems have "\<not> T < now (sent E aid 0 s) \<and> goes_on (poll E aid (sent E aid 0 s))"
    by blast
  then have go: "\<not> T < now (Sleep E second s)" "goes_on (poll E aid (Sleep E second s))"
    by (simp_all add: sent_0)
  have "\<forall>j<k. \<not> T < now (sent E aid j (poll_round E aid s)) \<and>
      goes_on (poll E aid (sent E aid j (poll_round E aid s)))"
  proof (intro allI impI)
    fix j assume "j < k"
    then have "Suc j < Suc k" by simp
    with Suc.prems have "\<not> T < now (sent E aid (Suc j) s) \<and> goes_on (poll E aid (sent E aid (Suc j) s))"
      by blast
    then show "\<not> T < now (sent E aid j (poll_round E aid s)) \<and>
      goes_on (poll E aid (sent E aid j (poll_round E aid s)))"
      by (simp add: sent_Suc)
  qed
  from Suc.IH [OF this]
  have ih: "wait_loop E aid T (poll_round E aid s) =
      wait_loop E aid T ((poll_round E aid ^^ k) (poll_round E aid s))" .
  have a: "wait_loop E aid T s = wait_loop E aid T (poll_round E aid s)"
    unfolding poll_round_def using go by (rule wait_loop_goes_on)
  have b: "(poll_round E aid ^^ Suc k) s = (poll_round E aid ^^ k) (poll_round E aid s)"
    by (simp add: funpow_swap1)
  show ?case unfolding b using a ih by simp
qed

lemma wait_loop_at_round_timeout:
  assumes "\<forall>j<k. \<not> T < now (sent E aid j s) \<and> goes_on (poll E aid (sent E aid j s))"
    and "T < now (sent E aid k s)"
  shows "wait_loop E aid T s = (Inl (Err ''action timed out''), sent E aid k s)"
  using wait_loop_skip [OF assms(1)]
    wait_loop_timeout [where T = T and E = E and s = "(poll_round E aid ^^ k) s" and aid = aid]
    assms(2)
  by (simp add: sent_def)

lemma wait_loop_at_round_stops:
  assumes "\<forall>j<k. \<not> T < now (sent E aid j s) \<and> goes_on (poll E aid (sent E aid j s))"
    and "\<not> T < now (sent E aid k s)" and "\<not> goes_on (poll E aid (sent E aid k s))"
  shows "wait_loop E aid T s =
           (poll_result (poll E aid (sent E aid k s)), polled E aid (sent E aid k s))"
  using wait_loop_skip [OF assms(1)]
    wait_loop_stops [where T = T and E = E and s = "(poll_round E aid ^^ k) s" and aid = aid]
    assms(2,3)
  by (simp add: sent_def poll_result_def)

lemma poll_result_observes:
  "observes r ActionStatusError st \<Longrightarrow>
     poll_result r = Inl (Err (act_ErrorCode st @ '': '' @ act_ErrorMessage st))"
  "observes r ActionStatusSuccess st \<Longrightarrow> poll_result r = Inr ()"
  by (simp_all add: observes_def poll_result_def)

lemma observes_not_goes_on:
  "observes r ActionStatusError st \<Longrightarrow> \<not> goes_on r"
  "observes r ActionStatusSuccess st \<Longrightarrow> \<not> goes_on r"
  by (auto simp: observes_def goes_on_def)

lemma poll_list_snoc:
  "poll_list E aid (Suc k) s = poll_list E aid k s @ [(Action_GetByID aid, poll E aid (sent E aid k s))]"
  by (simp add: poll_list_def)

lemma new_calls_sent: "new_calls s (sent E aid k s) = poll_list E aid k s"
  by (rule new_calls_append) (rule log_sent)

lemma new_calls_polled_sent:
  "new_calls s (polled E aid (sent E aid k s)) = poll_list E aid (Suc k) s"
  by (rule new_calls_append) (simp add: log_sent poll_list_snoc)

lemma WaitForActionCompletion_Some:
  "WaitForActionCompletion E (Some a) timeout s =
     wait_loop E (act_ID a) (now s + effective_timeout timeout) s"
  by (simp add: WaitForActionCompletion_def effective_timeout_def Let_def)

text \<open>
  C6 (as the code has it). \<open>WaitForActionCompletion\<close> is a total function: its loop is defined
  by well-founded recursion on the time left to the deadline, so it returns for every action
  handle, every timeout and every sequence of responses. A nil handle returns success at once
  and changes nothing. Otherwise it polls once per one-second interval: poll number \<open>k\<close> is
  sent from the state \<open>sent E id k s\<close>, the first at least one second after the call and each
  later one at least one second after the one before (exactly at 1 s, 2 s, ... when sleeps
  are exact and requests take no time), and it does so in every round until a sleep ends
  after the deadline (the result is the timeout error) or a poll does not find the action
  pending: then the log holds exactly these polls and the result is the one of that poll, an
  error made of the provider's code and message when it observes status error, success when
  it observes success. For a handle that stays pending and a non-negative timeout the result
  is the timeout error, at an elapsed time greater than the timeout and at most the timeout
  plus one poll interval plus the bounds \<open>dl\<close> on a request's latency and \<open>ds\<close> on a sleep's
  overrun; with exact sleeps and instantaneous requests the polls are those of the whole
  seconds up to the timeout and the error comes at the next whole second.
\<close>

theorem WaitForActionCompletion_result:
  assumes run: "WaitForActionCompletion E action timeout s = (res, s')"
  shows
   "(action = None \<longrightarrow> res = Inr () \<and> s' = s) \<and>
    (\<forall>a. action = Some a \<longrightarrow>
       cr s' = cr s \<and>
       (\<exists>k. (\<forall>j<k. \<not> now s + effective_timeout timeout < now (sent E (act_ID a) j s) \<and>
                  goes_on (poll E (act_ID a) (sent E (act_ID a) j s))) \<and>
            (if now s + effective_timeout timeout < now (sent E (act_ID a) k s)
             then res = Inl (Err ''action timed out'') \<and> s' = sent E (act_ID a) k s \<and>
                  new_calls s s' = poll_list E (act_ID a) k s
             else \<not> goes_on (poll E (act_ID a) (sent E (act_ID a) k s)) \<and>
                  res = poll_result (poll E (act_ID a) (sent E (act_ID a) k s)) \<and>
                  s' = polled E (act_ID a) (sent E (act_ID a) k s) \<and>
                  new_calls s s' = poll_list E (act_ID a) (Suc k) s)) \<and>
       (\<forall>k st. (\<forall>j<k. \<not> now s + effective_timeout timeout < now (sent E (act_ID a) j s) \<and>
                    goes_on (poll E (act_ID a) (sent E (act_ID a) j s))) \<and>
               \<not> now s + effective_timeout timeout < now (sent E (act_ID a) k s) \<longrightarrow>
          (observes (poll E (act_ID a) (sent E (act_ID a) k s)) ActionStatusError st \<longrightarrow>
             res = Inl (Err (act_ErrorCode st @ '': '' @ act_ErrorMessage st))) \<and>
          (observes (poll E (act_ID a) (sent E (act_ID a) k s)) ActionStatusSuccess st \<longrightarrow>
             res = Inr ())) \<and>
       (\<forall>k. (\<forall>j<k. \<not> now s + effective_timeout timeout < now (sent E (act_ID a) j s) \<and>
                 goes_on (poll E (act_ID a) (sent E (act_ID a) j s))) \<and>
            now s + effective_timeout timeout < now (sent E (act_ID a) k s) \<longrightarrow>
          res = Inl (Err ''action timed out'')) \<and>
       now s + second \<le> now (sent E (act_ID a) 0 s) \<and>
       (\<forall>k. now (sent E (act_ID a) k s) + second \<le> now (sent E (act_ID a) (Suc k) s)) \<and>
       ((\<forall>t h c. latency E t h c = 0) \<and> (\<forall>t h. oversleep E t h = 0) \<longrightarrow>
          (\<forall>k. now (sent E (act_ID a) k s) = now s + (int k + 1) * second)) \<and>
       (new_calls s s' \<noteq> [] \<longrightarrow>
          int (length (new_calls s s')) * second \<le> effective_timeout timeout) \<and>
       (res = Inr () \<longrightarrow>
          new_calls s s' \<noteq> [] \<and> (\<exists>st. observes (snd (last (new_calls s s'))) ActionStatusSuccess st)) \<and>
       ((\<forall>t h. goes_on (respond E t h (Action_GetByID (act_ID a)))) \<and>
        (\<forall>t h c. int (latency E t h c) \<le> dl) \<and> (\<forall>t h. int (oversleep E t h) \<le> ds) \<and>
        0 \<le> effective_timeout timeout \<longrightarrow>
          res = Inl (Err ''action timed out'') \<and>
          effective_timeout timeout < now s' - now s \<and>
          now s' - now s \<le> effective_timeout timeout + second + dl + ds) \<and>
       ((\<forall>t h. goes_on (respond E t h (Action_GetByID (act_ID a)))) \<and>
        (\<forall>t h c. latency E t h c = 0) \<and> (\<forall>t h. oversleep E t h = 0) \<and>
        0 \<le> effective_timeout timeout \<longrightarrow>
          res = Inl (Err ''action timed out'') \<and>
          new_calls s s' = poll_list E (act_ID a) (nat (effective_timeout timeout div second)) s \<and>
          now s' - now s = (effective_timeout timeout div second + 1) * second))"
proof (cases action)
  case None
  with run show ?thesis by (simp add: WaitForActionCompletion_def)
next
  case (Some a)
  let ?T0 = "effective_timeout timeout"
  let ?D = "now s + ?T0"
  let ?aid = "act_ID a"
  from run Some have w: "wait_loop E ?aid ?D s = (res, s')"
    by (simp add: WaitForActionCompletion_Some)
  have frame: "cr s' = cr s"
    using wait_loop_frame [OF w] by auto
  have rounds: "\<exists>k. (\<forall>j<k. \<not> ?D < now (sent E ?aid j s) \<and> goes_on (poll E ?aid (sent E ?aid j s))) \<and>
            (if ?D < now (sent E ?aid k s)
             then res = Inl (Err ''action timed out'') \<and> s' = sent E ?aid k s \<and>
                  new_calls s s' = poll_list E ?aid k s
             else \<not> goes_on (poll E ?aid (sent E ?aid k s)) \<and>
                  res = poll_result (poll E ?aid (sent E ?aid k s)) \<and>
                  s' = polled E ?aid (sent E ?aid k s) \<and>
                  new_calls s s' = poll_list E ?aid (Suc k) s)"
  proof -
    from wait_loop_rounds [of ?D E ?aid s] obtain k where
      pre: "\<forall>j<k. \<not> ?D < now (sent E ?aid j s) \<and> goes_on (poll E ?aid (sent E ?aid j s))"
      and r: "if ?D < now (sent E ?aid k s)
        then wait_loop E ?aid ?D s = (Inl (Err ''action timed out''), sent E ?aid k s)
        else \<not> goes_on (poll E ?aid (sent E ?aid k s)) \<and>
             wait_loop E ?aid ?D s =
               (poll_result (poll E ?aid (sent E ?aid k s)), polled E ?aid (sent E ?aid k s))"
      by blast
    show ?thesis
    proof (intro exI [of _ k] conjI pre)
      show "if ?D < now (sent E ?aid k s)
             then res = Inl (Err ''action timed out'') \<and> s' = sent E ?aid k s \<and>
                  new_calls s s' = poll_list E ?aid k s
             else \<not> goes_on (poll E ?aid (sent E ?aid k s)) \<and>
                  res = poll_result (poll E ?aid (sent E ?aid k s)) \<and>
                  s' = polled E ?aid (sent E ?aid k s) \<and>
                  new_calls s s' = poll_list E ?aid (Suc k) s"
      proof (cases "?D < now (sent E ?aid k s)")
        case True
        with r w show ?thesis by (auto simp: new_calls_sent)
      next
        case False
        with r w show ?thesis by (auto simp: new_calls_polled_sent)
      qed
    qed
  qed
  have at_poll: "\<forall>k st. (\<forall>j<k. \<not> ?D < now (sent E ?aid j s) \<and> goes_on (poll E ?aid (sent E ?aid j s))) \<and>
               \<not> ?D < now (sent E ?aid k s) \<longrightarrow>
          (observes (poll E ?aid (sent E ?aid k s)) ActionStatusError st \<longrightarrow>
             res = Inl (Err (act_ErrorCode st @ '': '' @ act_ErrorMessage st))) \<and>
          (observes (poll E ?aid (sent E ?aid k s)) ActionStatusSuccess st \<longrightarrow> res = Inr ())"
  proof (intro allI impI conjI)
    fix k st
    assume pre: "(\<forall>j<k. \<not> ?D < now (sent E ?aid j s) \<and> goes_on (poll E ?aid (sent E ?aid j s))) \<and>
               \<not> ?D < now (sent E ?aid k s)"
    {
      assume o: "observes (poll E ?aid (sent E ?aid k s)) ActionStatusError st"
      from pre observes_not_goes_on(1) [OF o]
      have "wait_loop E ?aid ?D s =
          (poll_result (poll E ?aid (sent E ?aid k s)), polled E ?aid (sent E ?aid k s))"
        by (intro wait_loop_at_round_stops) blast+
      with w poll_result_observes(1) [OF o]
      show "res = Inl (Err (act_ErrorCode st @ '': '' @ act_ErrorMessage st))" by simp
    }
    {
      assume o: "observes (poll E ?aid (sent E ?aid k s)) ActionStatusSuccess st"
      from pre observes_not_goes_on(2) [OF o]
      have "wait_loop E ?aid ?D s =
          (poll_result (poll E ?aid (sent E ?aid k s)), polled E ?aid (sent E ?aid k s))"
        by (intro wait_loop_at_round_stops) blast+
      with w poll_result_observes(2) [OF o]
      show "res = Inr ()" by simp
    }
  qed
  have at_deadline: "\<forall>k. (\<forall>j<k. \<not> ?D < now (sent E ?aid j s) \<and> goes_on (poll E ?aid (sent E ?aid j s))) \<and>
            ?D < now (sent E ?aid k s) \<longrightarrow> res = Inl (Err ''action timed out'')"
  proof (intro allI impI)
    fix k
    assume pre: "(\<forall>j<k. \<not> ?D < now (sent E ?aid j s) \<and> goes_on (poll E ?aid (sent E ?aid j s))) \<and>
            ?D < now (sent E ?aid k s)"
    then have "wait_loop E ?aid ?D s = (Inl (Err ''action timed out''), sent E ?aid k s)"
      by (intro wait_loop_at_round_timeout) blast+
    with w show "res = Inl (Err ''action timed out'')" by simp
  qed
  have first: "now s + second \<le> now (sent E ?aid 0 s)"
    by (simp add: now_sent_0)
  have apart: "\<forall>k. now (sent E ?aid k s) + second \<le> now (sent E ?aid (Suc k) s)"
    by (simp add: now_sent_spacing)
  have exact: "(\<forall>t h c. latency E t h c = 0) \<and> (\<forall>t h. oversleep E t h = 0) \<longrightarrow>
          (\<forall>k. now (sent E ?aid k s) = now s + (int k + 1) * second)"
    using now_sent_exact [of E ?aid _ s] by blast
  have spacing: "new_calls s s' \<noteq> [] \<longrightarrow> int (length (new_calls s s')) * second \<le> ?T0"
    using wait_loop_spacing [OF w] by auto
  have succ: "res = Inr () \<longrightarrow>
          new_calls s s' \<noteq> [] \<and> (\<exists>st. observes (snd (last (new_calls s s'))) ActionStatusSuccess st)"
    using wait_loop_success [of E ?aid ?D s s'] w by blast
  have pend: "(\<forall>t h. goes_on (respond E t h (Action_GetByID ?aid))) \<and>
        (\<forall>t h c. int (latency E t h c) \<le> dl) \<and> (\<forall>t h. int (oversleep E t h) \<le> ds) \<and> 0 \<le> ?T0 \<longrightarrow>
          res = Inl (Err ''action timed out'') \<and> ?T0 < now s' - now s \<and>
          now s' - now s \<le> ?T0 + second + dl + ds"
  proof (intro impI, elim conjE)
    assume p: "\<forall>t h. goes_on (respond E t h (Action_GetByID ?aid))"
      and l: "\<forall>t h c. int (latency E t h c) \<le> dl" and o: "\<forall>t h. int (oversleep E t h) \<le> ds"
      and t: "0 \<le> ?T0"
    from l have "0 \<le> dl" by (meson of_nat_0_le_iff order_trans)
    with t have le: "now s \<le> ?D + dl" by simp
    have "res = Inl (Err ''action timed out'') \<and> ?D < now s' \<and> now s' \<le> ?D + dl + second + ds"
    proof (rule wait_loop_pending [OF _ _ _ w le])
      show "\<And>t h. goes_on (respond E t h (Action_GetByID ?aid))" using p by simp
      show "\<And>t h c. int (latency E t h c) \<le> dl" using l by simp
      show "\<And>t h. int (oversleep E t h) \<le> ds" using o by simp
    qed
    then show "res = Inl (Err ''action timed out'') \<and> ?T0 < now s' - now s \<and>
          now s' - now s \<le> ?T0 + second + dl + ds"
      by linarith
  qed
  have pend_exact: "(\<forall>t h. goes_on (respond E t h (Action_GetByID ?aid))) \<and>
        (\<forall>t h c. latency E t h c = 0) \<and> (\<forall>t h. oversleep E t h = 0) \<and> 0 \<le> ?T0 \<longrightarrow>
          res = Inl (Err ''action timed out'') \<and>
          new_calls s s' = poll_list E ?aid (nat (?T0 div second)) s \<and>
          now s' - now s = (?T0 div second + 1) * second"
  proof (intro impI, elim conjE)
    assume p: "\<forall>t h. goes_on (respond E t h (Action_GetByID ?aid))"
      and l: "\<forall>t h c. latency E t h c = 0" and o: "\<forall>t h. oversleep E t h = 0"
      and t: "0 \<le> ?T0"
    have "wait_loop E ?aid ?D s = (Inl (Err ''action timed out''), sent E ?aid (nat (?T0 div second)) s) \<and>
         now (sent E ?aid (nat (?T0 div second)) s) = now s + (?T0 div second + 1) * second"
    proof (rule wait_loop_exact_rounds [OF _ _ _ t])
      show "\<And>t h. goes_on (respond E t h (Action_GetByID ?aid))" using p by simp
      show "\<And>t h c. latency E t h c = 0" using l by simp
      show "\<And>t h. oversleep E t h = 0" using o by simp
    qed
    with w show "res = Inl (Err ''action timed out'') \<and>
          new_calls s s' = poll_list E ?aid (nat (?T0 div second)) s \<and>
          now s' - now s = (?T0 div second + 1) * second"
      by (auto simp: new_calls_sent)
  qed
  show ?thesis
  proof (rule conjI, goal_cases)
    case 1
    from Some show ?case by simp
  next
    case 2
    show ?case
    proof (intro allI impI)
      fix a' assume "action = Some a'"
      with Some have eq: "a' = a" by simp
      show "cr s' = cr s \<and>
       (\<exists>k. (\<forall>j<k. \<not> ?D < now (sent E (act_ID a') j s) \<and>
                  goes_on (poll E (act_ID a') (sent E (act_ID a') j s))) \<and>
            (if ?D < now (sent E (act_ID a') k s)
             then res = Inl (Err ''action timed out'') \<and> s' = sent E (act_ID a') k s \<and>
                  new_calls s s' = poll_list E (act_ID a') k s
             else \<not> goes_on (poll E (act_ID a') (sent E (act_ID a') k s)) \<and>
                  res = poll_result (poll E (act_ID a') (sent E (act_ID a') k s)) \<and>
                  s' = polled E (act_ID a') (sent E (act_ID a') k s) \<and>
                  new_calls s s' = poll_list E (act_ID a') (Suc k) s)) \<and>
       (\<forall>k st. (\<forall>j<k. \<not> ?D < now (sent E (act_ID a') j s) \<and>
                    goes_on (poll E (act_ID a') (sent E (act_ID a') j s))) \<and>
               \<not> ?D < now (sent E (act_ID a') k s) \<longrightarrow>
          (observes (poll E (act_ID a') (sent E (act_ID a') k s)) ActionStatusError st \<longrightarrow>
             res = Inl (Err (act_ErrorCode st @ '': '' @ act_ErrorMessage st))) \<and>
          (observes (poll E (act_ID a') (sent E (act_ID a') k s)) ActionStatusSuccess st \<longrightarrow>
             res = Inr ())) \<and>
       (\<forall>k. (\<forall>j<k. \<not> ?D < now (sent E (act_ID a') j s) \<and>
                 goes_on (poll E (act_ID a') (sent E (act_ID a') j s))) \<and>
            ?D < now (sent E (act_ID a') k s) \<longrightarrow>
          res = Inl (Err ''action timed out'')) \<and>
       now s + second \<le> now (sent E (act_ID a') 0 s) \<and>
       (\<forall>k. now (sent E (act_ID a') k s) + second \<le> now (sent E (act_ID a') (Suc k) s)) \<and>
       ((\<forall>t h c. latency E t h c = 0) \<and> (\<forall>t h. oversleep E t h = 0) \<longrightarrow>
          (\<forall>k. now (sent E (act_ID a') k s) = now s + (int k + 1) * second)) \<and>
       (new_calls s s' \<noteq> [] \<longrightarrow> int (length (new_calls s s')) * second \<le> ?T0) \<and>
       (res = Inr () \<longrightarrow>
          new_calls s s' \<noteq> [] \<and> (\<exists>st. observes (snd (last (new_calls s s'))) ActionStatusSuccess st)) \<and>
       ((\<forall>t h. goes_on (respond E t h (Action_GetByID (act_ID a')))) \<and>
        (\<forall>t h c. int (latency E t h c) \<le> dl) \<and> (\<forall>t h. int (oversleep E t h) \<le> ds) \<and>
        0 \<le> ?T0 \<longrightarrow>
          res = Inl (Err ''action timed out'') \<and> ?T0 < now s' - now s \<and>
          now s' - now s \<le> ?T0 + second + dl + ds) \<and>
       ((\<forall>t h. goes_on (respond E t h (Action_GetByID (act_ID a')))) \<and>
        (\<forall>t h c. latency E t h c = 0) \<and> (\<forall>t h. oversleep E t h = 0) \<and>
        0 \<le> ?T0 \<longrightarrow>
          res = Inl (Err ''action timed out'') \<and>
          new_calls s s' = poll_list E (act_ID a') (nat (?T0 div second)) s \<and>
          now s' - now s = (?T0 div second + 1) * second)"
        unfolding eq
        by (intro conjI frame rounds at_poll at_deadline first apart exact spacing succ pend pend_exact)
    qed
  qed
qed

lemma always_running_goes_on: "goes_on (respond always_running t h c)"
  by (simp add: always_running_def goes_on_def observes_def ok_response_def running_action_def)

lemma always_running_default:
  "fst (WaitForActionCompletion always_running (Some running_action) [] (start_state ())) =
     Inl (Err ''action timed out'') \<and>
   now (snd (WaitForActionCompletion always_running (Some running_action) [] (start_state ()))) =
     minute + second \<and>
   length (new_calls (start_state ())
     (snd (WaitForActionCompletion always_running (Some running_action) [] (start_state ())))) = 60"
proof -
  have "now (start_state ()) = minute - int 60 * second"
    by (simp add: start_state_def minute_def)
  from wait_loop_exact [of always_running "act_ID running_action" "start_state ()" minute 60,
      OF always_running_goes_on _ _ this]
  show ?thesis
    by (simp add: WaitForActionCompletion_def Let_def always_running_def start_state_def)
qed

text \<open>
  C6 as the specification states it fails in its upper bound: with the default timeout, an
  action that stays pending and requests and sleeps that take no extra time, the timeout
  error is returned when exactly the timeout plus one poll interval has elapsed, which is
  not less than the timeout plus one poll interval.
\<close>

theorem WaitForActionCompletion_timeout_at_bound:
  "fst (WaitForActionCompletion always_running (Some running_action) [] (start_state ())) =
     Inl (Err ''action timed out'') \<and>
   \<not> (now (snd (WaitForActionCompletion always_running (Some running_action) [] (start_state ())))
        - now (start_state ()) < minute + second)"
  using always_running_default by (simp add: start_state_def)

lemma fails_on_second_poll_run:
  "WaitForActionCompletion fails_on_second_poll (Some running_action) [] (start_state ()) =
     (Inl (Err ''locked: volume is locked''),
      \<lparr>cr = (), now = 2000000016,
        log = [(Action_GetByID 1, ok_response\<lparr>r_action := Some running_action\<rparr>),
               (Action_GetByID 1, ok_response\<lparr>r_action :=
                  Some (running_action\<lparr>act_Status := ActionStatusError, act_ErrorCode := ''locked'',
                       act_ErrorMessage := ''volume is locked''\<rparr>)\<rparr>)]\<rparr>)"
  by (simp add: WaitForActionCompletion_def Let_def start_state_def wait_loop_unfold
      Sleep_def poll_def polled_def fails_on_second_poll_def second_def minute_def
      running_action_def ok_response_def)

lemma fails_on_second_poll_rounds:
  "\<not> now (start_state ()) + effective_timeout [] < now (sent fails_on_second_poll 1 0 (start_state ()))"
  "goes_on (poll fails_on_second_poll 1 (sent fails_on_second_poll 1 0 (start_state ())))"
  "\<not> now (start_state ()) + effective_timeout [] < now (sent fails_on_second_poll 1 (Suc 0) (start_state ()))"
  "observes (poll fails_on_second_poll 1 (sent fails_on_second_poll 1 (Suc 0) (start_state ())))
     ActionStatusError
     (running_action\<lparr>act_Status := ActionStatusError, act_ErrorCode := ''locked'',
        act_ErrorMessage := ''volume is locked''\<rparr>)"
  by (simp_all add: sent_def poll_round_def polled_def poll_def Sleep_def fails_on_second_poll_def
      start_state_def effective_timeout_def minute_def second_def goes_on_def observes_def
      ok_response_def running_action_def)

theorem WaitForActionCompletion_result_witness:
  "WaitForActionCompletion always_running None [] (start_state ()) = (Inr (), start_state ()) \<and>
   fst (WaitForActionCompletion fails_on_second_poll (Some running_action) [] (start_state ())) =
     Inl (Err ''locked: volume is locked'') \<and>
   fst (WaitForActionCompletion always_running (Some running_action) [] (start_state ())) =
     Inl (Err ''action timed out'') \<and>
   length (new_calls (start_state ())
     (snd (WaitForActionCompletion always_running (Some running_action) [] (start_state ())))) = 60 \<and>
   now (snd (WaitForActionCompletion always_running (Some running_action) [] (start_state ()))) =
     61 * second"
proof -
  obtain r0 t0 where run0:
    "WaitForActionCompletion always_running None [] (start_state ()) = (r0, t0)"
    by fastforce
  from WaitForActionCompletion_result [OF run0, THEN conjunct1] run0
  have c0: "WaitForActionCompletion always_running None [] (start_state ()) = (Inr (), start_state ())"
    by simp
  obtain r1 t1 where run1:
    "WaitForActionCompletion fails_on_second_poll (Some running_action) [] (start_state ()) = (r1, t1)"
    by fastforce
  let ?failed = "running_action\<lparr>act_Status := ActionStatusError, act_ErrorCode := ''locked'',
      act_ErrorMessage := ''volume is locked''\<rparr>"
  note th1 = WaitForActionCompletion_result [OF run1, THEN conjunct2, rule_format, OF refl]
  note at_poll1 = th1 [THEN conjunct2, THEN conjunct2, THEN conjunct1, rule_format,
      of "Suc 0" ?failed, THEN conjunct1, rule_format]
  have id1: "act_ID running_action = 1" by (simp add: running_action_def)
  have "r1 = Inl (Err (act_ErrorCode ?failed @ '': '' @ act_ErrorMessage ?failed))"
    by (rule at_poll1) (simp_all add: id1 fails_on_second_poll_rounds)
  then have c1: "fst (WaitForActionCompletion fails_on_second_poll (Some running_action) []
      (start_state ())) = Inl (Err ''locked: volume is locked'')"
    using run1 by simp
  obtain r2 t2 where run2:
    "WaitForActionCompletion always_running (Some running_action) [] (start_state ()) = (r2, t2)"
    by fastforce
  note th2 = WaitForActionCompletion_result [OF run2, THEN conjunct2, rule_format, OF refl]
  note exact2 = th2 [THEN conjunct2, THEN conjunct2, THEN conjunct2, THEN conjunct2, THEN conjunct2,
      THEN conjunct2, THEN conjunct2, THEN conjunct2, THEN conjunct2, THEN conjunct2, rule_format]
  have hyp: "(\<forall>t h. goes_on (respond always_running t h (Action_GetByID (act_ID running_action)))) \<and>
      (\<forall>t h c. latency always_running t h c = 0) \<and>
      (\<forall>t h. oversleep always_running t h = 0) \<and>
      0 \<le> effective_timeout []"
    by (simp add: always_running_goes_on)
      (simp add: always_running_def effective_timeout_def minute_def second_def)
  have div: "effective_timeout [] div second = 60"
    by (simp add: effective_timeout_def minute_def second_def)
  from exact2 [OF hyp]
  have "r2 = Inl (Err ''action timed out'') \<and>
      new_calls (start_state ()) t2 =
        poll_list always_running (act_ID running_action) (nat (effective_timeout [] div second))
          (start_state ()) \<and>
      now t2 - now (start_state ()) = (effective_timeout [] div second + 1) * second" .
  then have c2: "fst (WaitForActionCompletion always_running (Some running_action) []
        (start_state ())) = Inl (Err ''action timed out'')"
    "length (new_calls (start_state ())
       (snd (WaitForActionCompletion always_running (Some running_action) [] (start_state ())))) = 60"
    "now (snd (WaitForActionCompletion always_running (Some running_action) [] (start_state ()))) =
       61 * second"
    using run2 by (simp_all add: div start_state_def)
  from c0 c1 c2 show ?thesis by blast
qed

section \<open>Computations that leave the managed resource alone\<close>

lemma awaited_ok_append: "awaited_ok L1 \<Longrightarrow> awaited_ok L2 \<Longrightarrow> awaited_ok (L1 @ L2)"
proof (induction L1 rule: awaited_ok.induct)
  case 1
  then show ?case by simp
next
  case (2 p)
  then show ?case by (cases L2) auto
next
  case (3 p q L)
  then show ?case by auto
qed

lemma cleanI:
  assumes "\<And>s res s'. m s = (res, s') \<Longrightarrow>
     cr s' = cr s \<and> (\<exists>L. log s' = log s @ L \<and> (\<forall>x. res = Inr x \<longrightarrow> awaited_ok L))"
  shows "clean m"
  using assms unfolding clean_def by blast

lemma cleanD:
  assumes "clean m" and "m s = (res, s')"
  shows "cr s' = cr s \<and> (\<exists>L. log s' = log s @ L \<and> (\<forall>x. res = Inr x \<longrightarrow> awaited_ok L))"
  using assms unfolding clean_def by simp

lemma clean_return [simp]: "clean (return x)"
  by (rule cleanI) (auto simp: return_def)

lemma clean_throw [simp]: "clean (throw e)"
  by (rule cleanI) (auto simp: throw_def)

lemma clean_get_cr [simp]: "clean get_cr"
  by (rule cleanI) (auto simp: get_cr_def)

lemma clean_unix_now [simp]: "clean unix_now"
  by (rule cleanI) (auto simp: unix_now_def)

lemma clean_wrapE: "clean m \<Longrightarrow> clean (wrapE msg m)"
proof (rule cleanI)
  fix s res s'
  assume c: "clean m" and w: "wrapE msg m s = (res, s')"
  obtain r0 where m: "m s = (r0, s')" and r: "\<And>x. res = Inr x \<Longrightarrow> r0 = Inr x"
    using w by (auto simp: wrapE_def split: prod.splits sum.splits)
  from cleanD [OF c m] obtain L where L: "cr s' = cr s" "log s' = log s @ L"
      "\<forall>x. r0 = Inr x \<longrightarrow> awaited_ok L"
    by auto
  from L(3) r have "\<forall>x. res = Inr x \<longrightarrow> awaited_ok L" by simp
  with L(1,2)
  show "cr s' = cr s \<and> (\<exists>L. log s' = log s @ L \<and> (\<forall>x. res = Inr x \<longrightarrow> awaited_ok L))"
    by (intro conjI exI [of _ L])
qed

lemma clean_bind:
  assumes m: "clean m" and f: "\<And>x. clean (f x)"
  shows "clean (bind m f)"
proof (rule cleanI)
  fix s res s'
  assume b: "bind m f s = (res, s')"
  obtain r1 s1 where m1: "m s = (r1, s1)" by fastforce
  show "cr s' = cr s \<and> (\<exists>L. log s' = log s @ L \<and> (\<forall>x. res = Inr x \<longrightarrow> awaited_ok L))"
  proof (cases r1)
    case (Inl e)
    with b m1 have "res = Inl e" "s' = s1" by (auto simp: bind_def)
    with cleanD [OF m m1] show ?thesis by auto
  next
    case (Inr x)
    with b m1 have f1: "f x s1 = (res, s')" by (auto simp: bind_def)
    from cleanD [OF m m1] Inr obtain L1 where L1: "cr s1 = cr s" "log s1 = log s @ L1" "awaited_ok L1"
      by auto
    from cleanD [OF f f1] obtain L2 where L2: "cr s' = cr s1" "log s' = log s1 @ L2"
      "\<forall>y. res = Inr y \<longrightarrow> awaited_ok L2"
      by auto
    have a: "log s' = log s @ (L1 @ L2)" using L1 L2 by simp
    have b: "\<forall>y. res = Inr y \<longrightarrow> awaited_ok (L1 @ L2)"
      using L1(3) L2(3) by (simp add: awaited_ok_append)
    have c: "cr s' = cr s" using L1 L2 by simp
    from a b c show ?thesis by (intro conjI exI [of _ "L1 @ L2"])
  qed
qed

lemma clean_api:
  assumes "\<not> is_poll c"
  shows "clean (bind (api E c) (\<lambda>r. case r_err r of Some e \<Rightarrow> throw (Err e) | None \<Rightarrow> return (g r)))"
proof (rule cleanI)
  fix s res s'
  assume "bind (api E c) (\<lambda>r. case r_err r of Some e \<Rightarrow> throw (Err e) | None \<Rightarrow> return (g r)) s
      = (res, s')"
  with assms show "cr s' = cr s \<and> (\<exists>L. log s' = log s @ L \<and> (\<forall>x. res = Inr x \<longrightarrow> awaited_ok L))"
    by (auto simp: bind_def api_def Let_def throw_def return_def split: option.splits)
qed

lemma clean_api_err: "\<not> is_poll c \<Longrightarrow> clean (api_err E c)"
  unfolding api_err_def by (rule clean_api)

lemma clean_api_action: "\<not> is_poll c \<Longrightarrow> clean (api_action E c)"
  unfolding api_action_def by (rule clean_api)

lemma clean_api_actions: "\<not> is_poll c \<Longrightarrow> clean (api_actions E c)"
  unfolding api_actions_def by (rule clean_api)

lemma clean_api_volume: "\<not> is_poll c \<Longrightarrow> clean (api_volume E c)"
  unfolding api_volume_def by (rule clean_api)

lemma wait_loop_awaited_ok:
  "wait_loop E aid T s = (Inr (), s') \<Longrightarrow> awaited_ok (new_calls s s')"
proof (induction s arbitrary: s' rule: wait_loop_induct2 [where E = E and aid = aid and T = T])
  case (step s)
  let ?s1 = "Sleep E second s"
  consider (timeout) "T < now ?s1"
    | (stop) "\<not> T < now ?s1" "\<not> goes_on (poll E aid ?s1)"
    | (go) "\<not> T < now ?s1" "goes_on (poll E aid ?s1)"
    by blast
  then show ?case
  proof cases
    case timeout
    with step.prems show ?thesis by (auto simp: wait_loop_timeout)
  next
    case stop
    from stop step.prems have "s' = polled E aid ?s1" by (simp add: wait_loop_stops)
    then have nc: "new_calls s s' = [(Action_GetByID aid, poll E aid ?s1)]"
      by (simp add: new_calls_def)
    from wait_loop_success [OF step.prems] nc
    obtain a where "observes (poll E aid ?s1) ActionStatusSuccess a" by auto
    then have "r_err (poll E aid ?s1) = None" "\<exists>a. observes (poll E aid ?s1) ActionStatusSuccess a"
      by (auto simp: observes_def)
    with nc show ?thesis by simp
  next
    case go
    with step.prems have w: "wait_loop E aid T (polled E aid ?s1) = (Inr (), s')"
      by (simp add: wait_loop_goes_on)
    from wait_loop_log [OF w]
    have nc: "new_calls s s' = (Action_GetByID aid, poll E aid ?s1) # new_calls (polled E aid ?s1) s'"
      by (rule new_calls_polled) simp
    from wait_loop_success [OF w] obtain q L where ql: "new_calls (polled E aid ?s1) s' = q # L"
      by (cases "new_calls (polled E aid ?s1) s'") auto
    from wait_loop_frame [OF w] wait_loop_log [OF w] ql have "fst q = Action_GetByID aid"
      by auto
    from go(2) have e: "r_err (poll E aid ?s1) = None" by (auto simp: goes_on_def observes_def)
    from step.IH [OF go w] ql have ih: "awaited_ok (q # L)" by simp
    from e ih go(2) \<open>fst q = Action_GetByID aid\<close> show ?thesis
      unfolding nc ql by simp
  qed
qed

lemma clean_WaitForActionCompletion: "clean (WaitForActionCompletion E action timeout)"
proof (rule cleanI)
  fix s res s'
  assume run: "WaitForActionCompletion E action timeout s = (res, s')"
  show "cr s' = cr s \<and> (\<exists>L. log s' = log s @ L \<and> (\<forall>x. res = Inr x \<longrightarrow> awaited_ok L))"
  proof (cases action)
    case None
    with run show ?thesis by (auto simp: WaitForActionCompletion_def)
  next
    case (Some a)
    let ?T = "now s + (case timeout of [] \<Rightarrow> minute | t # _ \<Rightarrow> t)"
    from run Some have w: "wait_loop E (act_ID a) ?T s = (res, s')"
      by (simp add: WaitForActionCompletion_def Let_def)
    have f: "cr s' = cr s" using wait_loop_frame [OF w] by simp
    have l: "log s' = log s @ new_calls s s'" by (rule wait_loop_log [OF w])
    have o: "\<forall>x. res = Inr x \<longrightarrow> awaited_ok (new_calls s s')"
      using wait_loop_awaited_ok [of E "act_ID a" ?T s s'] w by simp
    from f l o show ?thesis by (intro conjI exI [of _ "new_calls s s'"])
  qed
qed

lemma clean_resize: "clean (resize E volume sz)"
  unfolding resize_def by (intro clean_bind clean_wrapE clean_api_action clean_WaitForActionCompletion) simp

lemma clean_attach_each: "clean (attach_each E volume ps)"
proof (induction ps)
  case Nil
  show ?case by simp
next
  case (Cons p ps)
  show ?case
  proof (cases "vp_ServerID p")
    case None
    then show ?thesis by (simp add: clean_bind Cons)
  next
    case (Some sid)
    then show ?thesis
      by (simp only: attach_each.simps option.case)
        (intro clean_bind clean_wrapE clean_api_action clean_WaitForActionCompletion Cons, simp)
  qed
qed

lemma clean_updateServerAttachment: "clean (updateServerAttachment E volume ps)"
proof (cases "hv_Server volume")
  case None
  then show ?thesis by (simp add: updateServerAttachment_def clean_bind clean_attach_each)
next
  case (Some x)
  then show ?thesis
    by (simp add: updateServerAttachment_def)
      (intro clean_bind clean_wrapE clean_api_action clean_WaitForActionCompletion clean_attach_each,
        simp)
qed

section \<open>Volume: delete\<close>

lemma starts_withI:
  assumes "\<And>s res s'. m s = (res, s') \<Longrightarrow> \<exists>r L. log s' = log s @ (c, r) # L"
  shows "starts_with c m"
  using assms unfolding starts_with_def by blast

lemma starts_withD:
  "starts_with c m \<Longrightarrow> m s = (res, s') \<Longrightarrow> \<exists>r L. log s' = log s @ (c, r) # L"
  unfolding starts_with_def by blast

lemma starts_with_api:
  "starts_with c (bind (api E c) (\<lambda>r. case r_err r of Some e \<Rightarrow> throw (Err e) | None \<Rightarrow> return (g r)))"
  by (rule starts_withI)
    (auto simp: bind_def api_def Let_def throw_def return_def split: option.splits)

lemma starts_with_api_action: "starts_with c (api_action E c)"
  unfolding api_action_def by (rule starts_with_api)

lemma starts_with_api_err: "starts_with c (api_err E c)"
  unfolding api_err_def by (rule starts_with_api)

lemma starts_with_wrapE: "starts_with c m \<Longrightarrow> starts_with c (wrapE msg m)"
proof (rule starts_withI)
  fix s res s'
  assume c: "starts_with c m" and w: "wrapE msg m s = (res, s')"
  obtain r0 where m: "m s = (r0, s')"
    using w by (auto simp: wrapE_def split: prod.splits sum.splits)
  from starts_withD [OF c m] show "\<exists>r L. log s' = log s @ (c, r) # L" .
qed

lemma starts_with_bind:
  assumes m: "starts_with c m" and f: "\<And>x. clean (f x)"
  shows "starts_with c (bind m f)"
proof (rule starts_withI)
  fix s res s'
  assume b: "bind m f s = (res, s')"
  obtain r1 s1 where m1: "m s = (r1, s1)" by fastforce
  from starts_withD [OF m m1] obtain r L where L: "log s1 = log s @ (c, r) # L" by blast
  show "\<exists>r L. log s' = log s @ (c, r) # L"
  proof (cases r1)
    case (Inl e)
    with b m1 have "s' = s1" by (auto simp: bind_def)
    with L show ?thesis by blast
  next
    case (Inr x)
    with b m1 have f1: "f x s1 = (res, s')" by (auto simp: bind_def)
    from cleanD [OF f f1] obtain L2 where "log s' = log s1 @ L2" by auto
    with L have "log s' = log s @ (c, r) # (L @ L2)" by simp
    then show ?thesis by blast
  qed
qed

lemma starts_with_detach:
  assumes "hv_Server volume \<noteq> None"
  shows "starts_with (Volume_Detach (hv_ID volume)) (updateServerAttachment E volume ps)"
  using assms unfolding updateServerAttachment_def
  by (simp add: starts_with_bind starts_with_wrapE starts_with_api_action clean_wrapE
      clean_WaitForActionCompletion clean_attach_each)

text \<open>
  C10. When the recorded parameters are absent, or record no attached server, \<open>Delete\<close>
  sets the Deleting condition and then panics on the nil pointer: it sends no request, so
  the volume is neither detached nor deleted. When they record a server, it does not panic
  there: its first request is the detach of the recorded volume.
\<close>

theorem volume_Delete_nil_dereference:
  "(AtProvider_Params (cr s) = None \<or>
    (\<exists>p. AtProvider_Params (cr s) = Some p \<and> vp_ServerID p = None) \<longrightarrow>
      volume_Delete E s = (Inl NilPointerDereference, s\<lparr>cr := (cr s)\<lparr>Ready := Some Deleting\<rparr>\<rparr>) \<and>
      new_calls s (snd (volume_Delete E s)) = []) \<and>
   (\<forall>p sid. AtProvider_Params (cr s) = Some p \<and> vp_ServerID p = Some sid \<longrightarrow>
      (\<exists>r L. new_calls s (snd (volume_Delete E s)) = (Volume_Detach (AtProvider_ID (cr s)), r) # L))"
proof (intro conjI allI impI)
  assume a: "AtProvider_Params (cr s) = None \<or>
    (\<exists>p. AtProvider_Params (cr s) = Some p \<and> vp_ServerID p = None)"
  then show "volume_Delete E s = (Inl NilPointerDereference, s\<lparr>cr := (cr s)\<lparr>Ready := Some Deleting\<rparr>\<rparr>)"
    by (auto simp: volume_Delete_def bind_def SetConditions_def modify_cr_def get_cr_def throw_def)
  then show "new_calls s (snd (volume_Delete E s)) = []"
    by (simp add: new_calls_def)
next
  fix p sid
  assume a: "AtProvider_Params (cr s) = Some p \<and> vp_ServerID p = Some sid"
  let ?s0 = "s\<lparr>cr := (cr s)\<lparr>Ready := Some Deleting\<rparr>\<rparr>"
  let ?volume = "\<lparr>hv_ID = AtProvider_ID (cr s), hv_Server = Some (val sid)\<rparr>"
  let ?rest = "bind (wrapE ''failed to detach volumes before delete''
                       (updateServerAttachment E ?volume []))
                 (\<lambda>_. wrapE ''failed to delete volume'' (api_err E (Volume_Delete (hv_ID ?volume))))"
  from a have d: "volume_Delete E s = ?rest ?s0"
    by (simp add: volume_Delete_def bind_def SetConditions_def modify_cr_def get_cr_def Let_def)
  have sw: "starts_with (Volume_Detach (hv_ID ?volume)) ?rest"
    by (intro starts_with_bind starts_with_wrapE starts_with_detach clean_wrapE clean_api_err) simp_all
  have pr: "?rest ?s0 = (fst (?rest ?s0), snd (?rest ?s0))" by simp
  from starts_withD [OF sw pr]
  obtain r L where "log (snd (?rest ?s0)) = log ?s0 @ (Volume_Detach (hv_ID ?volume), r) # L"
    by blast
  then have "new_calls s (snd (volume_Delete E s)) = (Volume_Detach (AtProvider_ID (cr s)), r) # L"
    unfolding d by (simp add: new_calls_def)
  then show "\<exists>r L. new_calls s (snd (volume_Delete E s)) = (Volume_Detach (AtProvider_ID (cr s)), r) # L"
    by blast
qed

theorem volume_Delete_nil_dereference_witness:
  "volume_Delete accepts_all (start_state shrinking_volume) =
     (Inl NilPointerDereference,
      (start_state shrinking_volume)\<lparr>cr := shrinking_volume\<lparr>Ready := Some Deleting\<rparr>\<rparr>) \<and>
   new_calls (start_state shrinking_volume)
     (snd (volume_Delete accepts_all (start_state shrinking_volume))) = [] \<and>
   fst (hd (new_calls (start_state attached_volume)
     (snd (volume_Delete accepts_all (start_state attached_volume))))) = Volume_Detach 5"
proof -
  have h1: "AtProvider_Params (cr (start_state shrinking_volume)) = None \<or>
    (\<exists>p. AtProvider_Params (cr (start_state shrinking_volume)) = Some p \<and> vp_ServerID p = None)"
    by (simp add: start_state_def shrinking_volume_def)
  from volume_Delete_nil_dereference [of "start_state shrinking_volume" accepts_all,
      THEN conjunct1, rule_format, OF h1]
  have c1: "volume_Delete accepts_all (start_state shrinking_volume) =
     (Inl NilPointerDereference,
      (start_state shrinking_volume)\<lparr>cr := shrinking_volume\<lparr>Ready := Some Deleting\<rparr>\<rparr>)"
    "new_calls (start_state shrinking_volume)
       (snd (volume_Delete accepts_all (start_state shrinking_volume))) = []"
    by (simp_all add: start_state_def)
  have h2: "AtProvider_Params (cr (start_state attached_volume)) =
      Some (the (AtProvider_Params attached_volume)) \<and>
    vp_ServerID (the (AtProvider_Params attached_volume)) = Some (Ptr 2 7)"
    by (simp add: start_state_def attached_volume_def)
  from volume_Delete_nil_dereference [of "start_state attached_volume" accepts_all,
      THEN conjunct2, rule_format, OF h2]
  obtain r L where "new_calls (start_state attached_volume)
     (snd (volume_Delete accepts_all (start_state attached_volume))) =
       (Volume_Detach (AtProvider_ID (cr (start_state attached_volume))), r) # L"
    by blast
  then have c2: "fst (hd (new_calls (start_state attached_volume)
     (snd (volume_Delete accepts_all (start_state attached_volume))))) = Volume_Detach 5"
    by (simp add: start_state_def attached_volume_def)
  from c1 c2 show ?thesis by blast
qed

section \<open>Volume: update\<close>

text \<open>The update pass that neither changes the attachment nor grows the volume, request by request.\<close>

lemma volume_Update_plain:
  assumes cur: "AtProvider_Params (cr s) = Some current"
    and size: "\<not> vp_Size current < vp_Size (ForProvider (cr s))"
    and server: "ptr_eq (vp_ServerID current) (vp_ServerID (ForProvider (cr s)))"
  shows "volume_Update E s =
    (let c1 = Volume_GetByID (AtProvider_ID (cr s));
         r1 = respond E (now s) (log s) c1;
         s1 = s\<lparr>now := now s + int (latency E (now s) (log s) c1), log := log s @ [(c1, r1)]\<rparr>
     in case r_err r1 of
          Some e \<Rightarrow> (Inl (Err (''failed to get volume: '' @ e)), s1)
        | None \<Rightarrow>
            (case r_volume r1 of
               None \<Rightarrow> (Inl (Err ''unknown volume''), s1)
             | Some volume \<Rightarrow>
                 (let c2 = Volume_Update (hv_ID volume)
                        (ApplyDefaultLabels (now s1 div second) [vp_Labels (ForProvider (cr s))]);
                      r2 = respond E (now s1) (log s1) c2;
                      s2 = s1\<lparr>now := now s1 + int (latency E (now s1) (log s1) c2),
                              log := log s1 @ [(c2, r2)]\<rparr>
                  in case r_err r2 of
                       Some e \<Rightarrow> (Inl (Err (''failed to update server: '' @ e)), s2)
                     | None \<Rightarrow>
                         (let s3 = s2\<lparr>cr := (cr s)\<lparr>AtProvider_Params :=
                                   Some (current\<lparr>vp_Labels := vp_Labels (ForProvider (cr s)),
                                      vp_ServerID := vp_ServerID (ForProvider (cr s)),
                                      vp_Size := vp_Size (ForProvider (cr s))\<rparr>)\<rparr>\<rparr>;
                              r3 = respond E (now s3) (log s3) Kube_Status_Update;
                              s4 = s3\<lparr>now := now s3 + int (latency E (now s3) (log s3) Kube_Status_Update),
                                      log := log s3 @ [(Kube_Status_Update, r3)]\<rparr>
                          in case r_err r3 of
                               Some e \<Rightarrow> (Inl (Err (''failed to save status: '' @ e)), s4)
                             | None \<Rightarrow> (Inr (), s4)))))"
  using assms
  by (simp add: volume_Update_def bind_def wrapE_def api_volume_def api_err_def api_def get_cr_def
      unix_now_def modify_cr_def throw_def return_def kube_Status_Update_def Let_def
      split: option.splits)

end
